theory Spec2Isabelle
  imports Main
begin

section \<open>Python values shared by the modules\<close>

text \<open>
  Exceptions are values. The first four are classes of the package
  (\<^verbatim>\<open>PropertyError\<close>, \<^verbatim>\<open>NodeCacheError\<close>, \<^verbatim>\<open>NodeError\<close>,
  \<^verbatim>\<open>LevelSequenceNodeError\<close>), the others are built-in exceptions of the
  interpreter; \<open>HostError\<close> stands for whatever the host application raises.
\<close>

datatype error =
    PropertyError string
  | NodeCacheError string
  | NodeError string
  | LevelSequenceNodeError string
  | TypeError
  | AttributeError
  | KeyError
  | IndexError
  | RecursionError
  | ZeroDivisionError
  | HostError nat

text \<open>\<^verbatim>\<open>s.startswith(p)\<close> and \<^verbatim>\<open>sub in s\<close> on strings.\<close>

fun startswith :: "string \<Rightarrow> string \<Rightarrow> bool" where
  "startswith s [] = True"
| "startswith [] (p # ps) = False"
| "startswith (c # s) (p # ps) = (c = p \<and> startswith s ps)"

fun str_contains :: "string \<Rightarrow> string \<Rightarrow> bool" where
  "str_contains sub [] = (sub = [])"
| "str_contains sub (c # s) = (startswith (c # s) sub \<or> str_contains sub s)"

text \<open>\<^verbatim>\<open>names.index(name)\<close>: the first position, \<^verbatim>\<open>ValueError\<close> left out because
  every call is guarded by \<^verbatim>\<open>name in names\<close>.\<close>

fun list_index :: "'a list \<Rightarrow> 'a \<Rightarrow> nat" where
  "list_index [] x = 0"
| "list_index (y # ys) x = (if y = x then 0 else Suc (list_index ys x))"

text \<open>\<^verbatim>\<open>d[k] = v\<close> on a dict kept in insertion order.\<close>

fun dict_set :: "('k \<times> 'v) list \<Rightarrow> 'k \<Rightarrow> 'v \<Rightarrow> ('k \<times> 'v) list" where
  "dict_set [] k v = [(k, v)]"
| "dict_set ((k', v') # d) k v = (if k' = k then (k, v) # d else (k', v') # dict_set d k v)"

text \<open>Decimal rendering of a non-negative integer, as \<^verbatim>\<open>f"{id(subject)}"\<close> gives it.\<close>

definition digit_char :: "nat \<Rightarrow> char" where
  "digit_char d = ''0123456789'' ! d"

function str_nat :: "nat \<Rightarrow> string" where
  "str_nat n = (if n < 10 then [digit_char n] else str_nat (n div 10) @ [digit_char (n mod 10)])"
  by pat_completeness auto
termination
  by (relation "measure id") auto

section \<open>node_caches.py\<close>

subsection \<open>The regular-expression library and the host module\<close>

text \<open>
  \<^verbatim>\<open>re.finditer(pattern, source, re.MULTILINE)\<close> belongs to the interpreter's
  library, so it is a parameter: a function from the pattern and the source text to
  the list of \<^verbatim>\<open>groupdict()\<close>s of the matches, in the order of the matches.
  A source that is \<^verbatim>\<open>None\<close> makes the library raise \<^verbatim>\<open>TypeError\<close>.
\<close>

type_synonym groupdict = "(string \<times> string) list"
type_synonym regex = "string \<Rightarrow> string \<Rightarrow> groupdict list"

definition find_groups :: "regex \<Rightarrow> string \<Rightarrow> string option \<Rightarrow> error + groupdict list" where
  "find_groups re pattern source =
     (case source of None \<Rightarrow> Inl TypeError | Some s \<Rightarrow> Inr (re pattern s))"

text \<open>
  What the code reads of an attribute of the host module \<^verbatim>\<open>unreal\<close>: its truth
  value, its \<^verbatim>\<open>__doc__\<close>, and its \<^verbatim>\<open>dir()\<close> with, for each attribute, the name
  of its type and its \<^verbatim>\<open>__doc__\<close>.
\<close>

record host_attr =
  attr_type_name :: string
  attr_doc :: "string option"

record host_obj =
  truthy :: bool
  cls_doc :: "string option"
  cls_dir :: "(string \<times> host_attr) list"

type_synonym host_module = "string \<Rightarrow> host_obj option"

datatype PropertyCategory = EDITOR | CLASS

subsection \<open>PropertyTypeSingleton and PropertyType\<close>

record PropertyType =
  pt_name :: string
  priv_type :: "string option"

text \<open>The metaclass's dict together with the instances it has created; an instance is
  identified by its position in \<open>pt_objects\<close>.\<close>

record PropertyTypeSingleton =
  pt_CACHE_DATA :: "string \<Rightarrow> nat option"
  pt_objects :: "PropertyType list"

definition PropertyType_init :: "string \<Rightarrow> PropertyType" where
  "PropertyType_init property_type = \<lparr>pt_name = property_type, priv_type = None\<rparr>"

definition PropertyType_call :: "string \<Rightarrow> PropertyTypeSingleton \<Rightarrow> nat \<times> PropertyTypeSingleton" where
  "PropertyType_call property_type st =
     (case pt_CACHE_DATA st property_type of
        Some a \<Rightarrow> (a, st)
      | None \<Rightarrow>
          (let a = length (pt_objects st)
           in (a, st\<lparr>pt_CACHE_DATA := (pt_CACHE_DATA st)(property_type \<mapsto> a),
                     pt_objects := pt_objects st @ [PropertyType_init property_type]\<rparr>)))"

subsection \<open>NodeCachePropertyBase and its two subclasses\<close>

record NodeCachePropertyBase =
  name :: string
  property_type :: nat
  permission :: string
  des :: string
  parent :: nat
  priv_is_write :: "bool option"
  category :: PropertyCategory

definition NodeCachePropertyBase_init ::
  "PropertyCategory \<Rightarrow> string \<Rightarrow> string \<Rightarrow> string \<Rightarrow> string \<Rightarrow> nat \<Rightarrow> PropertyTypeSingleton
     \<Rightarrow> NodeCachePropertyBase \<times> PropertyTypeSingleton" where
  "NodeCachePropertyBase_init cat nm ptype perm d par pts =
     (case PropertyType_call ptype pts of
        (a, pts') \<Rightarrow>
          (\<lparr>name = nm, property_type = a, permission = perm, des = d, parent = par,
            priv_is_write = None, category = cat\<rparr>, pts'))"

definition is_write :: "NodeCachePropertyBase \<Rightarrow> bool \<times> NodeCachePropertyBase" where
  "is_write self =
     (case priv_is_write self of
        None \<Rightarrow> (let b = str_contains ''Write'' (permission self)
                 in (b, self\<lparr>priv_is_write := Some b\<rparr>))
      | Some b \<Rightarrow> (b, self))"

text \<open>
  The host's \<^verbatim>\<open>subject.set_editor_property(name, value)\<close> and the interpreter's
  \<^verbatim>\<open>setattr(subject, name, value)\<close> on a host object are parameters: given the
  property name, the value and the subject they return the exception the host raised,
  if any, and the subject afterwards.
\<close>

type_synonym ('v, 's) host_setter = "string \<Rightarrow> 'v \<Rightarrow> 's \<Rightarrow> nat option \<times> 's"

definition property_error_message :: "NodeCachePropertyBase \<Rightarrow> string" where
  "property_error_message self = ''Property '' @ name self @ '' is '' @ permission self"

definition NodeCacheEditorProperty_set ::
  "('v, 's) host_setter \<Rightarrow> NodeCachePropertyBase \<Rightarrow> 'v \<Rightarrow> 's
     \<Rightarrow> (error + unit) \<times> NodeCachePropertyBase \<times> 's" where
  "NodeCacheEditorProperty_set set_editor_property self v subject =
     (case is_write self of
        (w, self') \<Rightarrow>
          if w then
            (case set_editor_property (name self') v subject of
               (None, subject') \<Rightarrow> (Inr (), self', subject')
             | (Some h, subject') \<Rightarrow> (Inl (HostError h), self', subject'))
          else (Inl (PropertyError (property_error_message self')), self', subject))"

definition NodeCacheClassProperty_set ::
  "('v, 's) host_setter \<Rightarrow> NodeCachePropertyBase \<Rightarrow> 'v \<Rightarrow> 's
     \<Rightarrow> (error + unit) \<times> NodeCachePropertyBase \<times> 's" where
  "NodeCacheClassProperty_set setattr self v subject =
     (case is_write self of
        (w, self') \<Rightarrow>
          if w then
            (case setattr (name self') v subject of
               (None, subject') \<Rightarrow> (Inr (), self', subject')
             | (Some h, subject') \<Rightarrow> (Inl (HostError h), self', subject'))
          else (Inl (PropertyError (property_error_message self')), self', subject))"

text \<open>The cached flag of a descriptor is unset or is the flag \<open>is_write\<close> computes.\<close>

definition is_write_coherent :: "NodeCachePropertyBase \<Rightarrow> bool" where
  "is_write_coherent self =
     (priv_is_write self = None \<or> priv_is_write self = Some (str_contains ''Write'' (permission self)))"

definition is_PropertyError :: "error + 'a \<Rightarrow> bool" where
  "is_PropertyError r = (case r of Inl (PropertyError m) \<Rightarrow> True | _ \<Rightarrow> False)"

subsection \<open>PropertySingleton and NodeCacheProperty\<close>

text \<open>A subject is a host object; the code uses it through its \<^verbatim>\<open>id()\<close> only.\<close>

record NodeCacheProperty =
  priv_property :: NodeCachePropertyBase
  priv_subject :: nat

record PropertySingleton =
  prop_CACHE_DATA :: "string \<Rightarrow> nat option"
  prop_objects :: "NodeCacheProperty list"

definition category_str :: "PropertyCategory \<Rightarrow> string" where
  "category_str c = (case c of EDITOR \<Rightarrow> ''0'' | CLASS \<Rightarrow> ''1'')"

definition property_key :: "NodeCachePropertyBase \<Rightarrow> nat \<Rightarrow> string" where
  "property_key ins subject = str_nat subject @ ''_'' @ name ins @ ''_'' @ category_str (category ins)"

definition NodeCacheProperty_init :: "NodeCachePropertyBase \<Rightarrow> nat \<Rightarrow> NodeCacheProperty" where
  "NodeCacheProperty_init property_ins subject = \<lparr>priv_property = property_ins, priv_subject = subject\<rparr>"

definition NodeCacheProperty_call ::
  "NodeCachePropertyBase \<Rightarrow> nat \<Rightarrow> PropertySingleton \<Rightarrow> nat \<times> PropertySingleton" where
  "NodeCacheProperty_call ins subject st =
     (let key = property_key ins subject
      in case prop_CACHE_DATA st key of
           Some a \<Rightarrow> (a, st)
         | None \<Rightarrow>
             (let a = length (prop_objects st)
              in (a, st\<lparr>prop_CACHE_DATA := (prop_CACHE_DATA st)(key \<mapsto> a),
                        prop_objects := prop_objects st @ [NodeCacheProperty_init ins subject]\<rparr>)))"

subsection \<open>NodeCacheSingleton and NodeCache\<close>

record NodeCache =
  self_id :: nat
  node_type :: string
  priv_node_cls :: host_obj
  priv_doc :: "string option"
  priv_des :: "string option"
  priv_source_data :: "(string \<times> string) list option"
  priv_editor_properties :: "NodeCachePropertyBase list option"
  priv_editor_property_names :: "string list option"
  priv_class_properties :: "NodeCachePropertyBase list option"
  priv_class_property_names :: "string list option"

record NodeCacheSingleton =
  nc_CACHE_DATA :: "string \<Rightarrow> nat option"
  nc_objects :: "NodeCache list"

definition NodeCache_init :: "host_obj \<Rightarrow> string \<Rightarrow> nat \<Rightarrow> NodeCache" where
  "NodeCache_init node_cls node_type_arg oid =
     \<lparr>self_id = oid, node_type = node_type_arg, priv_node_cls = node_cls, priv_doc = None,
      priv_des = None, priv_source_data = None, priv_editor_properties = None,
      priv_editor_property_names = None, priv_class_properties = None,
      priv_class_property_names = None\<rparr>"

text \<open>\<^verbatim>\<open>not getattr(unreal, node_type, None)\<close>: the attribute is absent or falsy.\<close>

definition not_getattr :: "host_module \<Rightarrow> string \<Rightarrow> bool" where
  "not_getattr unreal n = (case unreal n of None \<Rightarrow> True | Some obj \<Rightarrow> \<not> truthy obj)"

definition NodeCache_call ::
  "host_module \<Rightarrow> string option \<Rightarrow> NodeCacheSingleton \<Rightarrow> (error + nat) \<times> NodeCacheSingleton" where
  "NodeCache_call unreal node_type_arg st =
     (case node_type_arg of
        None \<Rightarrow> (Inl (NodeCacheError ''node_type is missing...''), st)
      | Some n \<Rightarrow>
          if not_getattr unreal n then (Inl (NodeCacheError ''node_type is missing...''), st)
          else
            (case nc_CACHE_DATA st n of
               Some a \<Rightarrow> (Inr a, st)
             | None \<Rightarrow>
                 (case unreal n of
                    None \<Rightarrow> (Inl AttributeError, st)
                  | Some node_cls \<Rightarrow>
                      (let a = length (nc_objects st)
                       in (Inr a, st\<lparr>nc_CACHE_DATA := (nc_CACHE_DATA st)(n \<mapsto> a),
                                      nc_objects := nc_objects st @ [NodeCache_init node_cls n a]\<rparr>)))))"

text \<open>The three patterns of the module; \<open>bs\<close> is the backslash.\<close>

definition bs :: string where
  "bs = [CHR 0x5C]"

definition source_pattern :: string where
  "source_pattern = ''- '' @ bs @ ''*'' @ bs @ ''*(?P<name>'' @ bs @ ''w+)'' @ bs @ ''*'' @ bs
     @ ''*: (?P<value>['' @ bs @ ''w.]+)''"

definition editor_pattern :: string where
  "editor_pattern = ''- ``(?P<name>'' @ bs @ ''w+)`` '' @ bs @ ''((?P<property_type>['' @ bs
     @ ''w()]+)'' @ bs @ ''):  '' @ bs @ ''[(?P<permission>['' @ bs @ ''w-]+)'' @ bs
     @ ''] (?P<des>['' @ bs @ ''w ,'' @ [CHR 0x27] @ ''().'' @ bs @ ''n'' @ bs @ ''r-]+)$''"

definition class_pattern :: string where
  "class_pattern = bs @ ''((?P<property_type>'' @ bs @ ''w+)'' @ bs @ ''):  '' @ bs
     @ ''[(?P<permission>['' @ bs @ ''w-]+)'' @ bs @ ''] (?P<des>['' @ bs @ ''w ,'' @ [CHR 0x27]
     @ ''().'' @ bs @ ''n'' @ bs @ ''r'' @ bs @ ''/:-]+)''"

subsection \<open>The editor pattern as the library reads it\<close>

text \<open>
  The editor pattern is
  \<^verbatim>\<open>- ``(?P<name>\w+)`` \((?P<property_type>[\w()]+)\):  \[(?P<permission>[\w-]+)\] (?P<des>[\w ,'().\n\r-]+)$\<close>.
  \<open>editor_finditer\<close> gives the \<^verbatim>\<open>groupdict()\<close>s that \<^verbatim>\<open>re.finditer\<close> finds for it
  with \<^verbatim>\<open>re.MULTILINE\<close>; the statements about the editor properties are made for a
  library that reads the pattern so.
\<close>

text \<open>
  The four character classes of the editor pattern: \<^verbatim>\<open>\w\<close>, the class of the property
  type (\<^verbatim>\<open>\w\<close> and the two parentheses), the class of the permission (\<^verbatim>\<open>\w\<close> and
  the hyphen) and the class of the description (\<^verbatim>\<open>\w\<close>, space, comma, apostrophe,
  parentheses, full stop, line feed, carriage return and hyphen). A docstring is taken to
  be ASCII text; what \<^verbatim>\<open>\w\<close> matches beyond ASCII is not modelled.
\<close>

definition word_char :: "char \<Rightarrow> bool" where
  "word_char c = (c \<in> set ''abcdefghijklmnopqrstuvwxyzABCDEFGHIJKLMNOPQRSTUVWXYZ0123456789_'')"

definition type_char :: "char \<Rightarrow> bool" where
  "type_char c = (word_char c \<or> c = CHR ''('' \<or> c = CHR '')'')"

definition permission_char :: "char \<Rightarrow> bool" where
  "permission_char c = (word_char c \<or> c = CHR ''-'')"

definition des_char :: "char \<Rightarrow> bool" where
  "des_char c = (word_char c \<or> c \<in> set '' ,().-'' \<or> c = CHR 0x27 \<or> c = CHR 0x0A \<or> c = CHR 0x0D)"

text \<open>The text after a literal piece of the pattern, if the text starts with it.\<close>

fun strip_prefix :: "string \<Rightarrow> string \<Rightarrow> string option" where
  "strip_prefix [] s = Some s"
| "strip_prefix (p # ps) [] = None"
| "strip_prefix (p # ps) (c # s) = (if p = c then strip_prefix ps s else None)"

text \<open>
  The description is a greedy run of its class followed by \<^verbatim>\<open>$\<close>, which with
  \<^verbatim>\<open>re.MULTILINE\<close> holds at the end of the text and before a line feed. So the group
  is the whole run when the text ends there, and otherwise the longest non-empty part of
  the run that a line feed follows, if there is one: the library gives back characters
  of the run until \<^verbatim>\<open>$\<close> holds.
\<close>

fun before_last_newline :: "string \<Rightarrow> string option" where
  "before_last_newline [] = None"
| "before_last_newline (c # cs) =
     (case before_last_newline cs of
        Some pre \<Rightarrow> Some (c # pre)
      | None \<Rightarrow> if c = CHR 0x0A then Some [] else None)"

definition des_match :: "string \<Rightarrow> string option" where
  "des_match s =
     (let run = takeWhile des_char s
      in case run of
           [] \<Rightarrow> None
         | c # cs \<Rightarrow>
             if dropWhile des_char s = [] then Some run
             else map_option ((#) c) (before_last_newline cs))"

text \<open>
  The four parts of the pattern; each gives its capture group and the text after it.
  The name and the permission are greedy runs that the next literal cannot be part of.
  The run of the property type may contain closing parentheses; the literal
  \<^verbatim>\<open>):  [\<close> after it starts with one and goes on with a colon, which is not in the
  class, so the group is the run without its last character, which must be a closing
  parenthesis.
\<close>

definition match_name :: "string \<Rightarrow> (string \<times> string) option" where
  "match_name s =
     (case strip_prefix ''- ``'' s of
        None \<Rightarrow> None
      | Some r \<Rightarrow>
          if takeWhile word_char r = [] then None
          else map_option (Pair (takeWhile word_char r)) (strip_prefix ''`` ('' (dropWhile word_char r)))"

definition match_type :: "string \<Rightarrow> (string \<times> string) option" where
  "match_type s =
     (let run = takeWhile type_char s
      in if length run < 2 \<or> last run \<noteq> CHR '')'' then None
         else map_option (Pair (butlast run)) (strip_prefix '':  ['' (dropWhile type_char s)))"

definition match_permission :: "string \<Rightarrow> (string \<times> string) option" where
  "match_permission s =
     (if takeWhile permission_char s = [] then None
      else map_option (Pair (takeWhile permission_char s)) (strip_prefix ''] '' (dropWhile permission_char s)))"

definition match_des :: "string \<Rightarrow> (string \<times> string) option" where
  "match_des s = map_option (\<lambda>d. (d, drop (length d) s)) (des_match s)"

text \<open>A match of the whole pattern at the start of the text: the \<^verbatim>\<open>groupdict()\<close> and the
  text after the match.\<close>

definition match_at :: "string \<Rightarrow> (groupdict \<times> string) option" where
  "match_at s =
     (case match_name s of
        None \<Rightarrow> None
      | Some (nm, r1) \<Rightarrow>
          (case match_type r1 of
             None \<Rightarrow> None
           | Some (t, r2) \<Rightarrow>
               (case match_permission r2 of
                  None \<Rightarrow> None
                | Some (p, r3) \<Rightarrow>
                    (case match_des r3 of
                       None \<Rightarrow> None
                     | Some (d, rest) \<Rightarrow>
                         Some ([(''name'', nm), (''property_type'', t), (''permission'', p), (''des'', d)],
                               rest)))))"

text \<open>
  \<^verbatim>\<open>re.finditer\<close> tries the positions from left to right and goes on after the end of
  a match; \<open>scan k\<close> has \<open>k\<close> characters of the last match still to pass.
\<close>

fun scan :: "nat \<Rightarrow> string \<Rightarrow> groupdict list" where
  "scan k [] = []"
| "scan (Suc k) (c # s) = scan k s"
| "scan 0 (c # s) =
     (case match_at (c # s) of
        None \<Rightarrow> scan 0 s
      | Some (g, rest) \<Rightarrow> g # scan (length s - length rest) s)"

definition editor_finditer :: "string \<Rightarrow> groupdict list" where
  "editor_finditer s = scan 0 s"


subsection \<open>The accessors of NodeCache\<close>

definition doc :: "NodeCache \<Rightarrow> string option \<times> NodeCache" where
  "doc self =
     (let self' = (if priv_doc self = None then self\<lparr>priv_doc := cls_doc (priv_node_cls self)\<rparr>
                   else self)
      in (priv_doc self', self'))"

fun source_data_loop :: "groupdict list \<Rightarrow> (string \<times> string) list \<Rightarrow> error + (string \<times> string) list" where
  "source_data_loop [] result = Inr result"
| "source_data_loop (grp # grps) result =
     (case map_of grp ''name'' of
        None \<Rightarrow> Inl KeyError
      | Some n \<Rightarrow>
          (case map_of grp ''value'' of
             None \<Rightarrow> Inl KeyError
           | Some v \<Rightarrow> source_data_loop grps (dict_set result n v)))"

definition source_data ::
  "regex \<Rightarrow> NodeCache \<Rightarrow> (error + (string \<times> string) list option) \<times> NodeCache" where
  "source_data re self =
     (if priv_source_data self = None then
        (case doc self of
           (d, self1) \<Rightarrow>
             (case find_groups re source_pattern d of
                Inl e \<Rightarrow> (Inl e, self1)
              | Inr grps \<Rightarrow>
                  (case source_data_loop grps [] of
                     Inl e \<Rightarrow> (Inl e, self1)
                   | Inr result \<Rightarrow>
                       (let self2 = (if result \<noteq> [] then self1\<lparr>priv_source_data := Some result\<rparr>
                                     else self1)
                        in (Inr (priv_source_data self2), self2)))))
      else (Inr (priv_source_data self), self))"

text \<open>
  A call with \<^verbatim>\<open>**group\<close>: the interpreter raises \<^verbatim>\<open>TypeError\<close> when a parameter
  of \<^verbatim>\<open>__init__\<close> gets no value or when the dict has a key that is no parameter
  (or is \<^verbatim>\<open>parent\<close>, passed twice).
\<close>

definition has_keys :: "groupdict \<Rightarrow> string list \<Rightarrow> bool" where
  "has_keys grp ks = list_all (\<lambda>k. map_of grp k \<noteq> None) ks"

definition only_keys :: "groupdict \<Rightarrow> string list \<Rightarrow> bool" where
  "only_keys grp ks = list_all (\<lambda>k. k \<in> set ks) (map fst grp)"

definition kw :: "groupdict \<Rightarrow> string \<Rightarrow> string" where
  "kw grp k = (case map_of grp k of Some v \<Rightarrow> v | None \<Rightarrow> [])"

definition NodeCacheEditorProperty_init ::
  "nat \<Rightarrow> groupdict \<Rightarrow> PropertyTypeSingleton \<Rightarrow> (error + NodeCachePropertyBase) \<times> PropertyTypeSingleton" where
  "NodeCacheEditorProperty_init par grp pts =
     (if has_keys grp [''name'', ''property_type'', ''permission'', ''des'']
         \<and> only_keys grp [''name'', ''property_type'', ''permission'', ''des'']
      then (case NodeCachePropertyBase_init EDITOR (kw grp ''name'') (kw grp ''property_type'')
                   (kw grp ''permission'') (kw grp ''des'') par pts of
              (x, pts') \<Rightarrow> (Inr x, pts'))
      else (Inl TypeError, pts))"

text \<open>Here \<^verbatim>\<open>group["name"] = attr\<close> and \<^verbatim>\<open>group["parent"] = self\<close> were
  stored before the call.\<close>

definition NodeCacheClassProperty_init ::
  "nat \<Rightarrow> string \<Rightarrow> groupdict \<Rightarrow> PropertyTypeSingleton
     \<Rightarrow> (error + NodeCachePropertyBase) \<times> PropertyTypeSingleton" where
  "NodeCacheClassProperty_init par attr grp pts =
     (if has_keys grp [''property_type'', ''permission'', ''des'']
         \<and> only_keys grp [''name'', ''parent'', ''property_type'', ''permission'', ''des'']
      then (case NodeCachePropertyBase_init CLASS attr (kw grp ''property_type'')
                   (kw grp ''permission'') (kw grp ''des'') par pts of
              (x, pts') \<Rightarrow> (Inr x, pts'))
      else (Inl TypeError, pts))"

fun editor_properties_loop ::
  "nat \<Rightarrow> groupdict list \<Rightarrow> NodeCachePropertyBase list \<Rightarrow> PropertyTypeSingleton
     \<Rightarrow> (error + NodeCachePropertyBase list) \<times> PropertyTypeSingleton" where
  "editor_properties_loop par [] result pts = (Inr result, pts)"
| "editor_properties_loop par (grp # grps) result pts =
     (case NodeCacheEditorProperty_init par grp pts of
        (Inl e, pts') \<Rightarrow> (Inl e, pts')
      | (Inr x, pts') \<Rightarrow> editor_properties_loop par grps (result @ [x]) pts')"

definition editor_properties ::
  "regex \<Rightarrow> NodeCache \<Rightarrow> PropertyTypeSingleton
     \<Rightarrow> (error + NodeCachePropertyBase list option) \<times> NodeCache \<times> PropertyTypeSingleton" where
  "editor_properties re self pts =
     (if priv_editor_properties self = None then
        (case doc self of
           (d, self1) \<Rightarrow>
             (case find_groups re editor_pattern d of
                Inl e \<Rightarrow> (Inl e, self1, pts)
              | Inr grps \<Rightarrow>
                  (case editor_properties_loop (self_id self1) grps [] pts of
                     (Inl e, pts') \<Rightarrow> (Inl e, self1, pts')
                   | (Inr result, pts') \<Rightarrow>
                       (let self2 = (if result \<noteq> []
                                     then self1\<lparr>priv_editor_properties := Some result\<rparr>
                                     else self1)
                        in (Inr (priv_editor_properties self2), self2, pts')))))
      else (Inr (priv_editor_properties self), self, pts))"

text \<open>Iterating over \<^verbatim>\<open>None\<close> in the list comprehension raises \<^verbatim>\<open>TypeError\<close>.\<close>

definition editor_property_names ::
  "regex \<Rightarrow> NodeCache \<Rightarrow> PropertyTypeSingleton
     \<Rightarrow> (error + string list option) \<times> NodeCache \<times> PropertyTypeSingleton" where
  "editor_property_names re self pts =
     (if priv_editor_property_names self = None then
        (case editor_properties re self pts of
           (Inl e, self1, pts1) \<Rightarrow> (Inl e, self1, pts1)
         | (Inr None, self1, pts1) \<Rightarrow> (Inl TypeError, self1, pts1)
         | (Inr (Some xs), self1, pts1) \<Rightarrow>
             (let self2 = self1\<lparr>priv_editor_property_names := Some (map name xs)\<rparr>
              in (Inr (priv_editor_property_names self2), self2, pts1)))
      else (Inr (priv_editor_property_names self), self, pts))"

text \<open>
  The inner loop of \<open>class_properties\<close> appends to the list \<^verbatim>\<open>result\<close>; what it
  appended before an exception stays in the list.
\<close>

fun class_properties_groups ::
  "nat \<Rightarrow> string \<Rightarrow> groupdict list \<Rightarrow> NodeCachePropertyBase list \<Rightarrow> PropertyTypeSingleton
     \<Rightarrow> error option \<times> NodeCachePropertyBase list \<times> PropertyTypeSingleton" where
  "class_properties_groups par attr [] result pts = (None, result, pts)"
| "class_properties_groups par attr (grp # grps) result pts =
     (case NodeCacheClassProperty_init par attr grp pts of
        (Inl e, pts') \<Rightarrow> (Some e, result, pts')
      | (Inr x, pts') \<Rightarrow> class_properties_groups par attr grps (result @ [x]) pts')"

text \<open>
  The loop over \<^verbatim>\<open>dir(self._node_cls)\<close>. The flag \<open>assigned\<close> says that
  \<^verbatim>\<open>self._class_properties = result\<close> has run: from then on the attribute and
  \<^verbatim>\<open>result\<close> are the same list, so later appends show in the attribute too.
\<close>

fun class_properties_loop ::
  "regex \<Rightarrow> nat \<Rightarrow> (string \<times> host_attr) list \<Rightarrow> NodeCachePropertyBase list \<Rightarrow> bool
     \<Rightarrow> PropertyTypeSingleton
     \<Rightarrow> error option \<times> NodeCachePropertyBase list \<times> bool \<times> PropertyTypeSingleton" where
  "class_properties_loop re par [] result assigned pts = (None, result, assigned, pts)"
| "class_properties_loop re par ((attr, attr_obj) # rest) result assigned pts =
     (if startswith attr ''__'' then class_properties_loop re par rest result assigned pts
      else if attr_type_name attr_obj \<noteq> ''getset_descriptor''
      then class_properties_loop re par rest result assigned pts
      else
        (case find_groups re class_pattern (attr_doc attr_obj) of
           Inl e \<Rightarrow> (Some e, result, assigned, pts)
         | Inr grps \<Rightarrow>
             (case class_properties_groups par attr grps result pts of
                (Some e, result', pts') \<Rightarrow> (Some e, result', assigned, pts')
              | (None, result', pts') \<Rightarrow>
                  class_properties_loop re par rest result' (assigned \<or> result' \<noteq> []) pts')))"

text \<open>
  In the source the \<^verbatim>\<open>return self._class_properties\<close> is indented into the
  \<^verbatim>\<open>if self._class_properties is None:\<close> block; when the attribute is set the
  method falls off its end and returns \<^verbatim>\<open>None\<close>.
\<close>

definition class_properties ::
  "regex \<Rightarrow> NodeCache \<Rightarrow> PropertyTypeSingleton
     \<Rightarrow> (error + NodeCachePropertyBase list option) \<times> NodeCache \<times> PropertyTypeSingleton" where
  "class_properties re self pts =
     (if priv_class_properties self = None then
        (case class_properties_loop re (self_id self) (cls_dir (priv_node_cls self)) [] False pts of
           (err, result, assigned, pts') \<Rightarrow>
             (let self' = (if assigned then self\<lparr>priv_class_properties := Some result\<rparr> else self)
              in case err of
                   Some e \<Rightarrow> (Inl e, self', pts')
                 | None \<Rightarrow> (Inr (priv_class_properties self'), self', pts')))
      else (Inr None, self, pts))"

definition class_property_names ::
  "regex \<Rightarrow> NodeCache \<Rightarrow> PropertyTypeSingleton
     \<Rightarrow> (error + string list option) \<times> NodeCache \<times> PropertyTypeSingleton" where
  "class_property_names re self pts =
     (if priv_class_property_names self = None then
        (case class_properties re self pts of
           (Inl e, self1, pts1) \<Rightarrow> (Inl e, self1, pts1)
         | (Inr None, self1, pts1) \<Rightarrow> (Inl TypeError, self1, pts1)
         | (Inr (Some xs), self1, pts1) \<Rightarrow>
             (let self2 = self1\<lparr>priv_class_property_names := Some (map name xs)\<rparr>
              in (Inr (priv_class_property_names self2), self2, pts1)))
      else (Inr (priv_class_property_names self), self, pts))"

text \<open>
  \<^verbatim>\<open>name in names\<close> raises \<^verbatim>\<open>TypeError\<close> when \<^verbatim>\<open>names\<close> is \<^verbatim>\<open>None\<close>, and so
  does \<^verbatim>\<open>pool[index]\<close> when \<^verbatim>\<open>pool\<close> is \<^verbatim>\<open>None\<close>. The \<^verbatim>\<open>else\<close> branch reads
  the attribute \<^verbatim>\<open>self._class_property_names\<close>, not the property.
\<close>

definition lookup_in_pool ::
  "string \<Rightarrow> NodeCachePropertyBase list option \<Rightarrow> string list option
     \<Rightarrow> error + NodeCachePropertyBase option" where
  "lookup_in_pool nm pool names =
     (case names of
        None \<Rightarrow> Inl TypeError
      | Some ns \<Rightarrow>
          if nm \<in> set ns then
            (let index = list_index ns nm
             in case pool of
                  None \<Rightarrow> Inl TypeError
                | Some xs \<Rightarrow> if index < length xs then Inr (Some (xs ! index)) else Inl IndexError)
          else Inr None)"

definition property_by_name ::
  "regex \<Rightarrow> NodeCache \<Rightarrow> string \<Rightarrow> PropertyCategory \<Rightarrow> PropertyTypeSingleton
     \<Rightarrow> (error + NodeCachePropertyBase option) \<times> NodeCache \<times> PropertyTypeSingleton" where
  "property_by_name re self nm property_category pts =
     (if property_category = EDITOR then
        (case editor_properties re self pts of
           (Inl e, self1, pts1) \<Rightarrow> (Inl e, self1, pts1)
         | (Inr pool, self1, pts1) \<Rightarrow>
             (case editor_property_names re self1 pts1 of
                (Inl e, self2, pts2) \<Rightarrow> (Inl e, self2, pts2)
              | (Inr names, self2, pts2) \<Rightarrow> (lookup_in_pool nm pool names, self2, pts2)))
      else
        (case class_properties re self pts of
           (Inl e, self1, pts1) \<Rightarrow> (Inl e, self1, pts1)
         | (Inr pool, self1, pts1) \<Rightarrow>
             (lookup_in_pool nm pool (priv_class_property_names self1), self1, pts1)))"

subsection \<open>Runs of factory calls\<close>

text \<open>The state of a metaclass after a run of calls, whatever they return.\<close>

definition PropertyType_calls :: "string list \<Rightarrow> PropertyTypeSingleton \<Rightarrow> PropertyTypeSingleton" where
  "PropertyType_calls ks st = fold (\<lambda>k s. snd (PropertyType_call k s)) ks st"

definition NodeCacheProperty_calls ::
  "(NodeCachePropertyBase \<times> nat) list \<Rightarrow> PropertySingleton \<Rightarrow> PropertySingleton" where
  "NodeCacheProperty_calls ks st = fold (\<lambda>(ins, subject) s. snd (NodeCacheProperty_call ins subject s)) ks st"

definition NodeCache_calls ::
  "host_module \<Rightarrow> string option list \<Rightarrow> NodeCacheSingleton \<Rightarrow> NodeCacheSingleton" where
  "NodeCache_calls unreal ks st = fold (\<lambda>k s. snd (NodeCache_call unreal k s)) ks st"

definition is_NodeCacheError :: "error + 'a \<Rightarrow> bool" where
  "is_NodeCacheError r = (case r of Inl (NodeCacheError m) \<Rightarrow> True | _ \<Rightarrow> False)"

definition is_raise :: "error + 'a \<Rightarrow> bool" where
  "is_raise r = (case r of Inl e \<Rightarrow> True | Inr v \<Rightarrow> False)"

text \<open>Every key of the cache passes the guard of \<open>NodeCache_call\<close>.\<close>

definition cache_keys_pass :: "host_module \<Rightarrow> NodeCacheSingleton \<Rightarrow> bool" where
  "cache_keys_pass unreal st = (\<forall>k. nc_CACHE_DATA st k \<noteq> None \<longrightarrow> \<not> not_getattr unreal k)"

text \<open>
  The invariants of the other two factories, as \<open>pts_coherent\<close> is the one of
  \<^verbatim>\<open>PropertyType\<close>: a cached key leads to an instance that was created for that key.
  They hold of the empty caches the metaclasses start with and every call keeps them.
\<close>

definition nc_coherent :: "NodeCacheSingleton \<Rightarrow> bool" where
  "nc_coherent st =
     (\<forall>k a. nc_CACHE_DATA st k = Some a \<longrightarrow> a < length (nc_objects st) \<and> node_type (nc_objects st ! a) = k)"

definition prop_coherent :: "PropertySingleton \<Rightarrow> bool" where
  "prop_coherent st =
     (\<forall>k a. prop_CACHE_DATA st k = Some a \<longrightarrow>
        a < length (prop_objects st)
        \<and> property_key (priv_property (prop_objects st ! a)) (priv_subject (prop_objects st ! a)) = k)"

subsection \<open>Example host objects\<close>

text \<open>
  A host module with a class \<^verbatim>\<open>Actor\<close>, whose docstring has one property bullet and
  which has one \<^verbatim>\<open>getset_descriptor\<close>, a class \<^verbatim>\<open>Plain\<close> whose docstring has no
  bullet, a class \<^verbatim>\<open>Bare\<close> without docstring, and the module attribute
  \<^verbatim>\<open>__package__\<close>, an empty string. \<open>demo_re\<close> is what the library's
  \<^verbatim>\<open>finditer\<close> returns on these texts.
\<close>

definition demo_attr_doc :: string where
  "demo_attr_doc = ''(bool):  [Read-Write] Whether the actor is hidden''"

definition demo_cls_doc :: string where
  "demo_cls_doc = ''An actor.'' @ [CHR 0x0A] @ ''- ``hidden`` (bool):  [Read-Write] Whether the actor is hidden''"

definition demo_cls :: host_obj where
  "demo_cls = \<lparr>truthy = True, cls_doc = Some demo_cls_doc,
     cls_dir = [(''__doc__'', \<lparr>attr_type_name = ''str'', attr_doc = None\<rparr>),
                (''get_name'', \<lparr>attr_type_name = ''method_descriptor'', attr_doc = Some ''x.get_name()''\<rparr>),
                (''hidden'', \<lparr>attr_type_name = ''getset_descriptor'', attr_doc = Some demo_attr_doc\<rparr>)]\<rparr>"

definition plain_cls :: host_obj where
  "plain_cls = \<lparr>truthy = True, cls_doc = Some ''A plain class.'', cls_dir = []\<rparr>"

definition bare_cls :: host_obj where
  "bare_cls = \<lparr>truthy = True, cls_doc = None, cls_dir = []\<rparr>"

definition empty_str_attr :: host_obj where
  "empty_str_attr = \<lparr>truthy = False, cls_doc = Some ''str(object) -> str'', cls_dir = []\<rparr>"

definition demo_unreal :: host_module where
  "demo_unreal n =
     (if n = ''Actor'' then Some demo_cls
      else if n = ''Plain'' then Some plain_cls
      else if n = ''Bare'' then Some bare_cls
      else if n = ''__package__'' then Some empty_str_attr
      else None)"

definition demo_re :: regex where
  "demo_re pattern source =
     (if pattern = class_pattern \<and> source = demo_attr_doc
      then [[(''property_type'', ''bool''), (''permission'', ''Read-Write''),
             (''des'', ''Whether the actor is hidden'')]]
      else if pattern = editor_pattern \<and> source = demo_cls_doc
      then [[(''name'', ''hidden''), (''property_type'', ''bool''), (''permission'', ''Read-Write''),
             (''des'', ''Whether the actor is hidden'')]]
      else [])"



definition pts0 :: PropertyTypeSingleton where
  "pts0 = \<lparr>pt_CACHE_DATA = (\<lambda>k. None), pt_objects = []\<rparr>"

definition props0 :: PropertySingleton where
  "props0 = \<lparr>prop_CACHE_DATA = (\<lambda>k. None), prop_objects = []\<rparr>"

definition ncs0 :: NodeCacheSingleton where
  "ncs0 = \<lparr>nc_CACHE_DATA = (\<lambda>k. None), nc_objects = []\<rparr>"

definition demo_cache :: NodeCache where
  "demo_cache = NodeCache_init demo_cls ''Actor'' 0"

definition demo_prop :: NodeCachePropertyBase where
  "demo_prop = \<lparr>name = ''hidden'', property_type = 0, permission = ''Read-Write'',
     des = ''Whether the actor is hidden'', parent = 0, priv_is_write = None, category = EDITOR\<rparr>"

subsection \<open>Vocabulary for the statements about the scraped descriptors\<close>



definition pts_coherent :: "PropertyTypeSingleton \<Rightarrow> bool" where
  "pts_coherent pts =
     (\<forall>k a. pt_CACHE_DATA pts k = Some a \<longrightarrow> a < length (pt_objects pts) \<and> pt_name (pt_objects pts ! a) = k)"

definition describes :: "PropertyTypeSingleton \<Rightarrow> nat \<Rightarrow> groupdict \<Rightarrow> NodeCachePropertyBase \<Rightarrow> bool" where
  "describes pts par g x =
     (name x = kw g ''name''
      \<and> property_type x < length (pt_objects pts)
      \<and> pt_name (pt_objects pts ! property_type x) = kw g ''property_type''
      \<and> permission x = kw g ''permission''
      \<and> des x = kw g ''des''
      \<and> category x = EDITOR
      \<and> parent x = par)"

definition pts_extends :: "PropertyTypeSingleton \<Rightarrow> PropertyTypeSingleton \<Rightarrow> bool" where
  "pts_extends pts pts' = (\<exists>ys. pt_objects pts' = pt_objects pts @ ys)"




definition scraped :: "NodeCache \<Rightarrow> string \<Rightarrow> PropertyTypeSingleton \<Rightarrow> bool" where
  "scraped c d pts =
     (case priv_editor_properties c of
        None \<Rightarrow> True
      | Some ds \<Rightarrow> ds \<noteq> [] \<and> list_all2 (describes pts (self_id c)) (editor_finditer d) ds)"

section \<open>node_base.py\<close>

text \<open>
  A \<^verbatim>\<open>NodeBase\<close> wrapper, as far as attribute access sees it: \<open>own_attrs\<close> is what
  the interpreter's normal lookup finds on the wrapper (instance attributes such as
  \<^verbatim>\<open>node_type\<close>, \<^verbatim>\<open>_ins_cache\<close> and \<^verbatim>\<open>_node\<close>, and what the class defines), and
  \<open>node_attrs\<close> is what \<^verbatim>\<open>getattr(self._node, item, NodeMissAttr)\<close> finds on the
  wrapped host node.
\<close>

record 'v NodeBase =
  own_attrs :: "string \<Rightarrow> 'v option"
  node_attrs :: "string \<Rightarrow> 'v option"

datatype 'v attr_result = Found 'v | NodeMissAttr

text \<open>
  \<^verbatim>\<open>NodeBase.__getattr__\<close>. The interpreter calls it when the normal lookup of an
  attribute fails. Its first statement, \<^verbatim>\<open>getattr(self, item, NodeMissAttr)\<close>, is the
  same lookup again: when it fails the interpreter calls \<^verbatim>\<open>__getattr__\<close> again, one
  frame deeper, and the three-argument \<^verbatim>\<open>getattr\<close> turns only \<^verbatim>\<open>AttributeError\<close>
  into the default. The first argument counts the frames left before the interpreter's
  recursion limit; with none left the call raises \<^verbatim>\<open>RecursionError\<close>.
  \<^verbatim>\<open>super(NodeBase, self).__getattr__\<close> does not exist on \<^verbatim>\<open>object\<close>, which is an
  \<^verbatim>\<open>AttributeError\<close>.
\<close>

fun NodeBase_getattr :: "nat \<Rightarrow> 'v NodeBase \<Rightarrow> string \<Rightarrow> error + 'v" where
  "NodeBase_getattr 0 self item = Inl RecursionError"
| "NodeBase_getattr (Suc frames) self item =
     (case (case own_attrs self item of
              Some v \<Rightarrow> Inr (Found v)
            | None \<Rightarrow>
                (case NodeBase_getattr frames self item of
                   Inr v \<Rightarrow> Inr (Found v)
                 | Inl e \<Rightarrow> if e = AttributeError then Inr NodeMissAttr else Inl e)) of
        Inl e \<Rightarrow> Inl e
      | Inr ins \<Rightarrow>
          (case (case ins of
                   NodeMissAttr \<Rightarrow>
                     (case node_attrs self item of Some v \<Rightarrow> Found v | None \<Rightarrow> NodeMissAttr)
                 | Found v \<Rightarrow> Found v) of
             NodeMissAttr \<Rightarrow> Inl AttributeError
           | Found v \<Rightarrow> Inr v))"

text \<open>Attribute access \<^verbatim>\<open>wrapper.item\<close>: the normal lookup, then \<^verbatim>\<open>__getattr__\<close>.\<close>

definition NodeBase_attribute :: "nat \<Rightarrow> 'v NodeBase \<Rightarrow> string \<Rightarrow> error + 'v" where
  "NodeBase_attribute frames self item =
     (case own_attrs self item of
        Some v \<Rightarrow> Inr v
      | None \<Rightarrow> NodeBase_getattr frames self item)"

definition demo_wrapper :: "nat NodeBase" where
  "demo_wrapper =
     \<lparr>own_attrs = (\<lambda>k. if k = ''node_type'' then Some 1 else if k = ''_node'' then Some 2 else None),
      node_attrs = (\<lambda>k. if k = ''get_name'' then Some 3 else None)\<rparr>"

section \<open>sequence.py\<close>

subsection \<open>The host application\<close>

text \<open>
  Host objects (binding proxies, tracks, sections, channels, actors, sequence assets,
  binding ids) are handles. A key of a channel is the channel together with the position
  of the key in \<^verbatim>\<open>ch.get_keys()\<close>; \<open>channel_keys\<close> gives the frame numbers
  (\<^verbatim>\<open>key.get_time().frame_number.value\<close>) of the keys of a channel in that order.
  The other fields are what the read-only calls of the code return: they are read as
  they stand and the code changes none of them itself.
\<close>

type_synonym key = "nat \<times> nat"

record host =
  child_possessables :: "nat \<Rightarrow> nat list"
  proxy_tracks :: "nat \<Rightarrow> nat list"
  track_sections :: "nat \<Rightarrow> nat list"
  section_channels :: "nat \<Rightarrow> nat list"
  channel_keys :: "nat \<Rightarrow> int list"
  proxy_sequence :: "nat \<Rightarrow> nat"
  binding_id :: "nat \<Rightarrow> nat"
  display_name :: "nat \<Rightarrow> string"
  bound_objects :: "nat \<Rightarrow> nat list"
  master_tracks :: "nat \<Rightarrow> nat list"
  is_camera_cut_track :: "nat \<Rightarrow> bool"
  is_camera_cut_section :: "nat \<Rightarrow> bool"
  camera_binding_id :: "nat \<Rightarrow> nat"
  spawnables :: "nat \<Rightarrow> nat list"
  is_cine_camera :: "nat \<Rightarrow> bool"
  display_rate :: "nat \<Rightarrow> int \<times> int"

text \<open>
  The calls of the host the code makes, each with its arguments and, where the code
  uses it, the value the host returned. \<open>AddCamera\<close> is no host call: it marks the
  entry of \<^verbatim>\<open>LevelSequenceNode.add_camera\<close> with the path, the name and the start
  frame it was asked for.
\<close>

datatype event =
    OpenEditor nat
  | SpawnActor nat
  | SetActorLabel nat string
  | AddSpawnable nat nat nat
  | ImportFbx nat nat string bool
  | DestroyActor nat
  | SetTime nat nat int
  | AddMasterTrack nat nat
  | AddSection nat nat
  | SetCameraBindingId nat nat
  | SetRange nat "int option" "int option"
  | SetPlaybackStart nat "int option"
  | SetPlaybackEnd nat "int option"
  | SetViewRangeStart nat
  | SetWorkRangeStart nat
  | SetViewRangeEnd nat
  | SetWorkRangeEnd nat
  | AddCamera string "string option" "int option"

text \<open>
  What the host does on a call is not specified here, so it is a parameter: \<open>effect\<close>
  is the change of the host on a call that returns nothing the code uses, and the other
  fields are the calls whose result the code uses, returning the result and the host
  afterwards. \<open>path_stem\<close> and \<open>path_as_posix\<close> are \<^verbatim>\<open>pathlib.Path(p).stem\<close> and
  \<^verbatim>\<open>pathlib.Path(p).as_posix()\<close>. Host calls are taken to return; an exception of
  the host is not modelled.
\<close>

record host_api =
  effect :: "event \<Rightarrow> host \<Rightarrow> host"
  spawn_actor_from_class :: "host \<Rightarrow> nat \<times> host"
  add_spawnable_from_instance :: "nat \<Rightarrow> nat \<Rightarrow> host \<Rightarrow> nat \<times> host"
  import_level_sequence_fbx :: "nat \<Rightarrow> nat \<Rightarrow> string \<Rightarrow> host \<Rightarrow> bool \<times> host"
  add_master_track :: "nat \<Rightarrow> host \<Rightarrow> nat \<times> host"
  add_section :: "nat \<Rightarrow> host \<Rightarrow> nat \<times> host"
  path_stem :: "string \<Rightarrow> string"
  path_as_posix :: "string \<Rightarrow> string"

record world =
  w_host :: host
  w_calls :: "event list"

definition void_call :: "host_api \<Rightarrow> event \<Rightarrow> world \<Rightarrow> world" where
  "void_call api e w = \<lparr>w_host = effect api e (w_host w), w_calls = w_calls w @ [e]\<rparr>"

definition log_call :: "event \<Rightarrow> host \<Rightarrow> world \<Rightarrow> world" where
  "log_call e h w = \<lparr>w_host = h, w_calls = w_calls w @ [e]\<rparr>"

text \<open>
  \<^verbatim>\<open>ch.get_keys()\<close>, \<^verbatim>\<open>key.get_time()\<close> and \<^verbatim>\<open>key.set_time()\<close>. A key that the
  channel no longer has gives no time (the host raises). Setting the time of a key
  changes the frame number of that key and nothing else.
\<close>

definition get_keys :: "host \<Rightarrow> nat \<Rightarrow> key list" where
  "get_keys h ch = map (\<lambda>i. (ch, i)) [0..<length (channel_keys h ch)]"

definition get_time :: "host \<Rightarrow> key \<Rightarrow> int option" where
  "get_time h k = (if snd k < length (channel_keys h (fst k)) then Some (channel_keys h (fst k) ! snd k) else None)"

definition set_time :: "key \<Rightarrow> int \<Rightarrow> world \<Rightarrow> world" where
  "set_time k v w =
     log_call (SetTime (fst k) (snd k) v)
       ((w_host w)\<lparr>channel_keys := (channel_keys (w_host w))(fst k := (channel_keys (w_host w) (fst k))[snd k := v])\<rparr>)
       w"

subsection \<open>SequenceCamera\<close>

datatype CameraOrder = stack | one_by_one

text \<open>
  A \<^verbatim>\<open>LevelSequenceNode\<close> is used through its host asset \<^verbatim>\<open>node\<close> only and is that
  handle here. \<^verbatim>\<open>SequenceCamera.__init__\<close> builds the node of the sequence the proxy
  belongs to; that asset is loaded, so the \<^verbatim>\<open>NodeError\<close> of
  \<^verbatim>\<open>AssetNode.asset_from_path\<close> for a missing asset does not arise there.
\<close>

record SequenceCamera =
  priv_proxy :: nat
  priv_sequence :: nat
  priv_start :: "int option"
  priv_end :: "int option"
  priv_key_frames_data :: "(nat \<times> key list) list option"

definition SequenceCamera_init :: "host \<Rightarrow> nat \<Rightarrow> SequenceCamera" where
  "SequenceCamera_init h proxy =
     \<lparr>priv_proxy = proxy, priv_sequence = proxy_sequence h proxy, priv_start = None,
      priv_end = None, priv_key_frames_data = None\<rparr>"

text \<open>The channels in the order the four nested loops of \<^verbatim>\<open>__setup_camera_data\<close> visit them.\<close>

definition camera_channels :: "host \<Rightarrow> nat \<Rightarrow> nat list" where
  "camera_channels h proxy =
     concat (map (section_channels h)
       (concat (map (track_sections h)
         (concat (map (proxy_tracks h) (child_possessables h proxy @ [proxy]))))))"

fun setup_loop ::
  "host \<Rightarrow> nat list \<Rightarrow> (nat \<times> key list) list \<Rightarrow> int option \<Rightarrow> int option
     \<Rightarrow> (nat \<times> key list) list \<times> int option \<times> int option" where
  "setup_loop h [] data start_v end_v = (data, start_v, end_v)"
| "setup_loop h (ch # chs) data start_v end_v =
     (let keys = get_keys h ch
      in if keys \<noteq> [] then
           (let key_start = hd (channel_keys h ch);
                key_end = last (channel_keys h ch)
            in setup_loop h chs (dict_set data ch keys)
                 (case start_v of
                    None \<Rightarrow> Some key_start
                  | Some s \<Rightarrow> if s > key_start then Some key_start else Some s)
                 (case end_v of
                    None \<Rightarrow> Some key_end
                  | Some e \<Rightarrow> if e < key_end then Some key_end else Some e))
         else setup_loop h chs data start_v end_v)"

definition setup_camera_data :: "SequenceCamera \<Rightarrow> host \<Rightarrow> SequenceCamera" where
  "setup_camera_data self h =
     (case setup_loop h (camera_channels h (priv_proxy self)) [] None None of
        (data, start_v, end_v) \<Rightarrow>
          self\<lparr>priv_key_frames_data := Some data, priv_start := start_v, priv_end := end_v\<rparr>)"

definition SequenceCamera_start :: "SequenceCamera \<Rightarrow> host \<Rightarrow> int option \<times> SequenceCamera" where
  "SequenceCamera_start self h =
     (let self' = (if priv_start self = None then setup_camera_data self h else self)
      in (priv_start self', self'))"

definition SequenceCamera_end :: "SequenceCamera \<Rightarrow> host \<Rightarrow> int option \<times> SequenceCamera" where
  "SequenceCamera_end self h =
     (let self' = (if priv_end self = None then setup_camera_data self h else self)
      in (priv_end self', self'))"

text \<open>The inner and the outer loop of \<^verbatim>\<open>set_start_frame\<close>.\<close>

fun shift_keys :: "int \<Rightarrow> int \<Rightarrow> key list \<Rightarrow> world \<Rightarrow> (error + unit) \<times> world" where
  "shift_keys sub_offset offset [] w = (Inr (), w)"
| "shift_keys sub_offset offset (k # keys) w =
     (case get_time (w_host w) k of
        None \<Rightarrow> (Inl (HostError 0), w)
      | Some current_frame \<Rightarrow>
          shift_keys sub_offset offset keys (set_time k (current_frame + sub_offset + offset) w))"

fun shift_channels ::
  "int \<Rightarrow> int \<Rightarrow> (nat \<times> key list) list \<Rightarrow> world \<Rightarrow> (error + unit) \<times> world" where
  "shift_channels self_start offset [] w = (Inr (), w)"
| "shift_channels self_start offset ((ch, keys) # rest) w =
     (case keys of
        [] \<Rightarrow> (Inl IndexError, w)
      | k0 # ks \<Rightarrow>
          (case get_time (w_host w) k0 of
             None \<Rightarrow> (Inl (HostError 0), w)
           | Some ch_start \<Rightarrow>
               (case shift_keys (self_start - ch_start) offset keys w of
                  (Inl e, w') \<Rightarrow> (Inl e, w')
                | (Inr u, w') \<Rightarrow> shift_channels self_start offset rest w')))"

text \<open>
  \<^verbatim>\<open>start - self.start\<close> raises \<^verbatim>\<open>TypeError\<close> when the camera has no key, and
  \<^verbatim>\<open>.items()\<close> on an unset \<^verbatim>\<open>_key_frames_data\<close> raises \<^verbatim>\<open>AttributeError\<close>.
\<close>

definition set_start_frame ::
  "int \<Rightarrow> SequenceCamera \<Rightarrow> world \<Rightarrow> (error + unit) \<times> SequenceCamera \<times> world" where
  "set_start_frame start_arg self w =
     (case SequenceCamera_start self (w_host w) of
        (None, self1) \<Rightarrow> (Inl TypeError, self1, w)
      | (Some self_start, self1) \<Rightarrow>
          (let offset = start_arg - self_start
           in case priv_key_frames_data self1 of
                None \<Rightarrow> (Inl AttributeError, self1, w)
              | Some data \<Rightarrow>
                  (case shift_channels self_start offset data w of
                     (Inl e, w') \<Rightarrow> (Inl e, self1, w')
                   | (Inr u, w') \<Rightarrow> (Inr (), setup_camera_data self1 (w_host w'), w'))))"

text \<open>Statements about \<open>set_start_frame\<close> speak of the distances between successive keys.\<close>

definition spacing :: "int list \<Rightarrow> int list" where
  "spacing xs = map (\<lambda>(a, b). b - a) (zip xs (tl xs))"

text \<open>
  The cached keys of a camera are current: either nothing is cached, or the cached dict
  is the one \<open>setup_camera_data\<close> would build from the host now.
\<close>

definition keys_current :: "SequenceCamera \<Rightarrow> host \<Rightarrow> bool" where
  "keys_current self h =
     (priv_start self = None
      \<or> priv_key_frames_data self = priv_key_frames_data (setup_camera_data self h))"

definition has_keyframe :: "SequenceCamera \<Rightarrow> host \<Rightarrow> bool" where
  "has_keyframe self h = list_ex (\<lambda>ch. channel_keys h ch \<noteq> []) (camera_channels h (priv_proxy self))"

subsection \<open>LevelSequenceNode and the camera import\<close>

definition add_camera_cut_track :: "host_api \<Rightarrow> nat \<Rightarrow> world \<Rightarrow> nat \<times> world" where
  "add_camera_cut_track api node w =
     (case add_master_track api node (w_host w) of
        (track, h') \<Rightarrow> (track, log_call (AddMasterTrack node track) h' w))"

definition camera_cut_track :: "host_api \<Rightarrow> nat \<Rightarrow> world \<Rightarrow> nat \<times> world" where
  "camera_cut_track api node w =
     (case filter (is_camera_cut_track (w_host w)) (master_tracks (w_host w) node) of
        x # xs \<Rightarrow> (x, w)
      | [] \<Rightarrow> add_camera_cut_track api node w)"

definition camera_cut_sections :: "host_api \<Rightarrow> SequenceCamera \<Rightarrow> world \<Rightarrow> nat list \<times> world" where
  "camera_cut_sections api self w =
     (case camera_cut_track api (priv_sequence self) w of
        (track, w1) \<Rightarrow>
          (let h = w_host w1;
               camera_objects = bound_objects h (binding_id h (priv_proxy self))
           in (filter (\<lambda>sec. is_camera_cut_section h sec
                          \<and> bound_objects h (camera_binding_id h sec) \<noteq> []
                          \<and> bound_objects h (camera_binding_id h sec) = camera_objects)
                 (track_sections h track), w1)))"

text \<open>
  The block of \<^verbatim>\<open>import_camera\<close> that spawns an actor when no proxy is passed; it
  returns the actor, if one was spawned, and the proxy to import into.
\<close>

definition obtain_proxy ::
  "host_api \<Rightarrow> nat \<Rightarrow> string \<Rightarrow> nat option \<Rightarrow> world \<Rightarrow> nat option \<times> nat \<times> world" where
  "obtain_proxy api sequence nm proxy_arg w =
     (case proxy_arg of
        Some proxy \<Rightarrow> (None, proxy, w)
      | None \<Rightarrow>
          (case spawn_actor_from_class api (w_host w) of
             (cam_actor, h1) \<Rightarrow>
               (let w1 = log_call (SpawnActor cam_actor) h1 w;
                    w2 = void_call api (SetActorLabel cam_actor nm) w1
                in case add_spawnable_from_instance api sequence cam_actor (w_host w2) of
                     (proxy, h3) \<Rightarrow>
                       (Some cam_actor, proxy, log_call (AddSpawnable sequence cam_actor proxy) h3 w2))))"

text \<open>\<^verbatim>\<open>if start_frame: camera.set_start_frame(start_frame)\<close>; \<^verbatim>\<open>None\<close> and 0 are falsy.\<close>

definition adjust_start ::
  "int option \<Rightarrow> SequenceCamera \<Rightarrow> world \<Rightarrow> (error + unit) \<times> SequenceCamera \<times> world" where
  "adjust_start start_frame camera w =
     (case start_frame of
        None \<Rightarrow> (Inr (), camera, w)
      | Some f \<Rightarrow> if f = 0 then (Inr (), camera, w) else set_start_frame f camera w)"

text \<open>
  The loop over the sections. The event \<open>SetCameraBindingId sec proxy\<close> stands for
  \<^verbatim>\<open>section.set_camera_binding_id(proxy.get_binding_id())\<close>.
\<close>

fun wire_sections :: "host_api \<Rightarrow> nat list \<Rightarrow> SequenceCamera \<Rightarrow> world \<Rightarrow> SequenceCamera \<times> world" where
  "wire_sections api [] camera w = (camera, w)"
| "wire_sections api (sec # secs) camera w =
     (let w1 = void_call api (SetCameraBindingId sec (priv_proxy camera)) w
      in case SequenceCamera_start camera (w_host w1) of
           (s, camera1) \<Rightarrow>
             (case SequenceCamera_end camera1 (w_host w1) of
                (e, camera2) \<Rightarrow> wire_sections api secs camera2 (void_call api (SetRange sec s e) w1)))"

definition wire_camera :: "host_api \<Rightarrow> nat \<Rightarrow> SequenceCamera \<Rightarrow> world \<Rightarrow> SequenceCamera \<times> world" where
  "wire_camera api sequence camera w =
     (case camera_cut_sections api camera w of
        (sections, w1) \<Rightarrow>
          (case (if sections = [] then
                   (case camera_cut_track api sequence w1 of
                      (track, w2) \<Rightarrow>
                        (case add_section api track (w_host w2) of
                           (sec, h3) \<Rightarrow> ([sec], log_call (AddSection track sec) h3 w2)))
                 else (sections, w1)) of
             (sections', w4) \<Rightarrow> wire_sections api sections' camera w4))"

text \<open>
  \<^verbatim>\<open>SequenceCamera.import_camera\<close>. The import settings object is built and filled
  with four constant flags before the import; it is passed to the import call and used
  nowhere else, so it does not appear.
\<close>

definition import_camera ::
  "host_api \<Rightarrow> string \<Rightarrow> nat \<Rightarrow> nat option \<Rightarrow> string option \<Rightarrow> int option \<Rightarrow> bool \<Rightarrow> world
     \<Rightarrow> (error + SequenceCamera option) \<times> world" where
  "import_camera api fbx_path sequence proxy_arg name_arg start_frame new_section w0 =
     (let w1 = void_call api (OpenEditor sequence) w0;
          nm = (case name_arg of None \<Rightarrow> path_stem api fbx_path | Some n \<Rightarrow> n)
      in case obtain_proxy api sequence nm proxy_arg w1 of
           (cam_actor, proxy, w2) \<Rightarrow>
             (case import_level_sequence_fbx api sequence proxy (path_as_posix api fbx_path) (w_host w2) of
                (import_status, h3) \<Rightarrow>
                  (let w3 = log_call (ImportFbx sequence proxy (path_as_posix api fbx_path) import_status) h3 w2;
                       w4 = (case cam_actor of
                               Some a \<Rightarrow> void_call api (DestroyActor a) w3
                             | None \<Rightarrow> w3);
                       camera = SequenceCamera_init (w_host w4) proxy
                   in if \<not> import_status then (Inr None, w4)
                      else
                        (case adjust_start start_frame camera w4 of
                           (Inl e, camera1, w5) \<Rightarrow> (Inl e, w5)
                         | (Inr u, camera1, w5) \<Rightarrow>
                             if new_section then
                               (case wire_camera api sequence camera1 w5 of
                                  (camera2, w6) \<Rightarrow> (Inr (Some camera2), w6))
                             else (Inr (Some camera1), w5)))))"

definition LevelSequenceNode_cameras :: "host \<Rightarrow> nat \<Rightarrow> SequenceCamera list" where
  "LevelSequenceNode_cameras h node =
     map (SequenceCamera_init h) (filter (is_cine_camera h) (spawnables h node))"

definition SequenceCamera_name :: "host \<Rightarrow> SequenceCamera \<Rightarrow> string" where
  "SequenceCamera_name h self = display_name h (priv_proxy self)"

text \<open>\<^verbatim>\<open>name or fbx_path.stem\<close>: an empty name is falsy, as \<^verbatim>\<open>None\<close> is.\<close>

definition camera_name_or_stem :: "host_api \<Rightarrow> string \<Rightarrow> string option \<Rightarrow> string" where
  "camera_name_or_stem api fbx_path name_arg =
     (case name_arg of
        None \<Rightarrow> path_stem api fbx_path
      | Some n \<Rightarrow> if n = [] then path_stem api fbx_path else n)"

text \<open>The proxy of the first camera of the sequence that has the given name, if asked for.\<close>

definition matching_proxy :: "host \<Rightarrow> nat \<Rightarrow> string \<Rightarrow> bool \<Rightarrow> nat option" where
  "matching_proxy h self nm match_camera_name =
     (if match_camera_name then
        (case filter (\<lambda>x. SequenceCamera_name h x = nm) (LevelSequenceNode_cameras h self) of
           [] \<Rightarrow> None
         | camera # xs \<Rightarrow> Some (priv_proxy camera))
      else None)"

definition add_camera ::
  "host_api \<Rightarrow> nat \<Rightarrow> string \<Rightarrow> string option \<Rightarrow> int option \<Rightarrow> bool \<Rightarrow> world
     \<Rightarrow> (error + SequenceCamera) \<times> world" where
  "add_camera api self fbx_path name_arg start_frame match_camera_name w0 =
     (let w = log_call (AddCamera fbx_path name_arg start_frame) (w_host w0) w0;
          nm = camera_name_or_stem api fbx_path name_arg;
          camera_proxy = matching_proxy (w_host w) self nm match_camera_name
      in case import_camera api (path_as_posix api fbx_path) self camera_proxy (Some nm) start_frame True w of
           (Inl e, w') \<Rightarrow> (Inl e, w')
         | (Inr None, w') \<Rightarrow>
             (Inl (LevelSequenceNodeError (''Import camera fbx is error '' @ path_as_posix api fbx_path)), w')
         | (Inr (Some camera), w') \<Rightarrow> (Inr camera, w'))"

text \<open>
  \<^verbatim>\<open>int(dr.numerator / dr.denominator)\<close> truncates towards zero (the rounding of the
  float division for very large numbers is left out), and
  \<^verbatim>\<open>float(frame) / float(self.fps)\<close> raises \<^verbatim>\<open>TypeError\<close> for a frame that is
  \<^verbatim>\<open>None\<close> and \<^verbatim>\<open>ZeroDivisionError\<close> for a rate of zero. The seconds passed to
  the view and work range calls are floats and are not part of the events.
\<close>

definition fps :: "host \<Rightarrow> nat \<Rightarrow> error + int" where
  "fps h node =
     (case display_rate h node of
        (numerator, denominator) \<Rightarrow>
          if denominator = 0 then Inl ZeroDivisionError
          else Inr (sgn numerator * sgn denominator * (\<bar>numerator\<bar> div \<bar>denominator\<bar>)))"

definition set_start :: "host_api \<Rightarrow> nat \<Rightarrow> int option \<Rightarrow> world \<Rightarrow> (error + unit) \<times> world" where
  "set_start api node frame w0 =
     (let w1 = void_call api (SetPlaybackStart node frame) w0
      in case frame of
           None \<Rightarrow> (Inl TypeError, w1)
         | Some f \<Rightarrow>
             (case fps (w_host w1) node of
                Inl e \<Rightarrow> (Inl e, w1)
              | Inr rate \<Rightarrow>
                  if rate = 0 then (Inl ZeroDivisionError, w1)
                  else (Inr (), void_call api (SetWorkRangeStart node)
                                  (void_call api (SetViewRangeStart node) w1))))"

definition set_end :: "host_api \<Rightarrow> nat \<Rightarrow> int option \<Rightarrow> world \<Rightarrow> (error + unit) \<times> world" where
  "set_end api node frame w0 =
     (let w1 = void_call api (SetPlaybackEnd node frame) w0
      in case frame of
           None \<Rightarrow> (Inl TypeError, w1)
         | Some f \<Rightarrow>
             (case fps (w_host w1) node of
                Inl e \<Rightarrow> (Inl e, w1)
              | Inr rate \<Rightarrow>
                  if rate = 0 then (Inl ZeroDivisionError, w1)
                  else (Inr (), void_call api (SetWorkRangeEnd node)
                                  (void_call api (SetViewRangeEnd node) w1))))"

text \<open>
  The two assignments in the body of the loop of \<^verbatim>\<open>add_cameras\<close>.
  \<^verbatim>\<open>camera.end + 1\<close> and \<^verbatim>\<open>end < camera.end\<close> raise \<^verbatim>\<open>TypeError\<close> when the camera
  has no key.
\<close>

definition next_start_frame ::
  "CameraOrder \<Rightarrow> SequenceCamera \<Rightarrow> int option \<Rightarrow> host \<Rightarrow> error + int option \<times> SequenceCamera" where
  "next_start_frame cam_order camera start_frame h =
     (if cam_order = one_by_one then
        (case SequenceCamera_end camera h of
           (None, camera1) \<Rightarrow> Inl TypeError
         | (Some e, camera1) \<Rightarrow> Inr (Some (e + 1), camera1))
      else Inr (start_frame, camera))"

definition next_end ::
  "bool \<Rightarrow> CameraOrder \<Rightarrow> int option \<Rightarrow> SequenceCamera \<Rightarrow> host \<Rightarrow> error + int option \<times> SequenceCamera" where
  "next_end auto_frame_range cam_order end_v camera h =
     (if auto_frame_range then
        (case end_v of
           None \<Rightarrow> Inr (SequenceCamera_end camera h)
         | Some ev \<Rightarrow>
             if cam_order = one_by_one then Inr (SequenceCamera_end camera h)
             else
               (case SequenceCamera_end camera h of
                  (None, camera1) \<Rightarrow> Inl TypeError
                | (Some e, camera1) \<Rightarrow>
                    if ev < e then Inr (SequenceCamera_end camera1 h) else Inr (Some ev, camera1)))
      else Inr (end_v, camera))"

text \<open>
  The loop of \<^verbatim>\<open>add_cameras\<close> over the list of dicts. The inner \<^verbatim>\<open>for\<close> over the
  items of a dict ends with \<^verbatim>\<open>break\<close>, so it runs for the first item only, and not at
  all for an empty dict. A \<^verbatim>\<open>SequenceCamera\<close> is always truthy. The list holds the
  camera object, whose cached values the later reads of \<^verbatim>\<open>camera.end\<close> may fill.
\<close>

fun add_cameras_loop ::
  "host_api \<Rightarrow> nat \<Rightarrow> bool \<Rightarrow> CameraOrder \<Rightarrow> bool \<Rightarrow> (string \<times> string) list list
     \<Rightarrow> int option \<Rightarrow> int option \<Rightarrow> SequenceCamera list \<Rightarrow> world
     \<Rightarrow> (error + SequenceCamera list \<times> int option) \<times> world" where
  "add_cameras_loop api self mcn cam_order afr [] start_frame end_v result w = (Inr (result, end_v), w)"
| "add_cameras_loop api self mcn cam_order afr (camera_data # rest) start_frame end_v result w =
     (case camera_data of
        [] \<Rightarrow> add_cameras_loop api self mcn cam_order afr rest start_frame end_v result w
      | (camera_name, camera_path) # others \<Rightarrow>
          (case add_camera api self camera_path (Some camera_name) start_frame mcn w of
             (Inl e, w1) \<Rightarrow> (Inl e, w1)
           | (Inr camera, w1) \<Rightarrow>
               (case next_start_frame cam_order camera start_frame (w_host w1) of
                  Inl e \<Rightarrow> (Inl e, w1)
                | Inr (start_frame', camera1) \<Rightarrow>
                    (case next_end afr cam_order end_v camera1 (w_host w1) of
                       Inl e \<Rightarrow> (Inl e, w1)
                     | Inr (end_v', camera2) \<Rightarrow>
                         add_cameras_loop api self mcn cam_order afr rest start_frame' end_v'
                           (result @ [camera2]) w1))))"

definition add_cameras ::
  "host_api \<Rightarrow> nat \<Rightarrow> (string \<times> string) list list \<Rightarrow> int option \<Rightarrow> bool \<Rightarrow> CameraOrder \<Rightarrow> bool
     \<Rightarrow> world \<Rightarrow> (error + SequenceCamera list) \<times> world" where
  "add_cameras api self cameras start_frame match_camera_name cam_order auto_frame_range w =
     (case add_cameras_loop api self match_camera_name cam_order auto_frame_range cameras
             start_frame None [] w of
        (Inl e, w1) \<Rightarrow> (Inl e, w1)
      | (Inr (result, end_v), w1) \<Rightarrow>
          if auto_frame_range then
            (case set_start api self start_frame w1 of
               (Inl e, w2) \<Rightarrow> (Inl e, w2)
             | (Inr u, w2) \<Rightarrow>
                 (case set_end api self end_v w2 of
                    (Inl e, w3) \<Rightarrow> (Inl e, w3)
                  | (Inr u', w3) \<Rightarrow> (Inr result, w3)))
          else (Inr result, w1))"


subsection \<open>Vocabulary for the statements about the call trace\<close>

text \<open>
  The stage of \<^verbatim>\<open>import_camera\<close> a host call belongs to: opening the sequence (0),
  spawning the camera actor (1), the FBX import (2), destroying the actor (3), moving
  keys (4), wiring camera-cut sections (5); the other events (6) are not made by
  \<^verbatim>\<open>import_camera\<close>.
\<close>

fun phase :: "event \<Rightarrow> nat" where
  "phase (OpenEditor s) = 0"
| "phase (SpawnActor a) = 1"
| "phase (SetActorLabel a n) = 1"
| "phase (AddSpawnable s a p) = 1"
| "phase (ImportFbx s p f b) = 2"
| "phase (DestroyActor a) = 3"
| "phase (SetTime c i v) = 4"
| "phase (AddMasterTrack s t) = 5"
| "phase (AddSection t x) = 5"
| "phase (SetCameraBindingId x p) = 5"
| "phase (SetRange x a b) = 5"
| "phase e = 6"

definition spawned :: "nat \<Rightarrow> string \<Rightarrow> nat option \<Rightarrow> nat \<Rightarrow> nat \<Rightarrow> event list" where
  "spawned sequence nm proxy_arg a p =
     (case proxy_arg of
        None \<Rightarrow> [SpawnActor a, SetActorLabel a nm, AddSpawnable sequence a p]
      | Some q \<Rightarrow> [])"

definition destroyed :: "nat option \<Rightarrow> nat \<Rightarrow> event list" where
  "destroyed proxy_arg a = (case proxy_arg of None \<Rightarrow> [DestroyActor a] | Some q \<Rightarrow> [])"

definition creates :: "event \<Rightarrow> bool" where
  "creates e = (case e of AddMasterTrack s t \<Rightarrow> True | AddSection t x \<Rightarrow> True | _ \<Rightarrow> False)"

text \<open>The calls that bind the sections \<open>xs\<close>, each given with its range, to the proxy \<open>p\<close>.\<close>

definition wired :: "nat \<Rightarrow> (nat \<times> int option \<times> int option) list \<Rightarrow> event list" where
  "wired p xs = concat (map (\<lambda>(sec, s, e). [SetCameraBindingId sec p, SetRange sec s e]) xs)"

definition range_of :: "SequenceCamera \<Rightarrow> nat \<times> int option \<times> int option \<Rightarrow> bool" where
  "range_of cam x =
     (case x of (sec, s, e) \<Rightarrow> (s = priv_start cam \<and> e = priv_end cam) \<or> (s = None \<and> e = None))"

definition import_name :: "host_api \<Rightarrow> string \<Rightarrow> string option \<Rightarrow> string" where
  "import_name api fbx_path name_arg = (case name_arg of None \<Rightarrow> path_stem api fbx_path | Some n \<Rightarrow> n)"


definition is_AddCamera :: "event \<Rightarrow> bool" where
  "is_AddCamera e = (case e of AddCamera f n s \<Rightarrow> True | _ \<Rightarrow> False)"

text \<open>The first item of every dict that has one, in the order of the list.\<close>

fun first_pairs :: "'a list list \<Rightarrow> 'a list" where
  "first_pairs [] = []"
| "first_pairs ([] # ds) = first_pairs ds"
| "first_pairs ((x # xs) # ds) = x # first_pairs ds"

text \<open>
  The calls of \<^verbatim>\<open>add_camera\<close> that importing the given pairs makes when the cameras
  \<open>cams\<close> come back: the first asks for the start frame passed to \<^verbatim>\<open>add_cameras\<close>,
  and under \<^verbatim>\<open>one_by_one\<close> each later one asks for the end frame of the camera
  before it plus one.
\<close>

fun requests :: "CameraOrder \<Rightarrow> int option \<Rightarrow> (string \<times> string) list \<Rightarrow> SequenceCamera list \<Rightarrow> event list" where
  "requests cam_order sf [] cams = []"
| "requests cam_order sf (pair # rest) [] = []"
| "requests cam_order sf ((camera_name, camera_path) # rest) (c # cams) =
     AddCamera camera_path (Some camera_name) sf
       # requests cam_order
           (if cam_order = one_by_one then map_option (\<lambda>e. e + 1) (priv_end c) else sf) rest cams"

text \<open>The event is a successful FBX import of the path of the pair into the sequence.\<close>

definition imports_pair :: "host_api \<Rightarrow> nat \<Rightarrow> event \<Rightarrow> string \<times> string \<Rightarrow> bool" where
  "imports_pair api self e pair =
     (\<exists>p. e = ImportFbx self p (path_as_posix api (path_as_posix api (snd pair))) True)"


text \<open>Two notions used in the proofs about \<open>set_start_frame\<close>: the entries of a
  cached dict are the keys the host has now, and a host with other frame numbers.\<close>

definition entries_ok :: "host \<Rightarrow> (nat \<times> key list) list \<Rightarrow> bool" where
  "entries_ok h data = (\<forall>(ch, keys) \<in> set data. keys = get_keys h ch \<and> keys \<noteq> [])"

definition host_keys :: "host \<Rightarrow> (nat \<Rightarrow> int list) \<Rightarrow> host" where
  "host_keys h f = h\<lparr>channel_keys := f\<rparr>"

subsection \<open>An example camera\<close>

text \<open>
  A camera binding 3 with one child possessable 2. The child has a track with a section
  with the channels 30 (keys at the frames 5, 8, 12) and 31 (no key); the binding itself
  has a track with a section with the channel 32 (keys at 7 and 9).
\<close>

definition demo_host :: host where
  "demo_host =
     \<lparr>child_possessables = (\<lambda>p. if p = 3 then [2] else []),
      proxy_tracks = (\<lambda>p. if p = 2 then [10] else if p = 3 then [11] else []),
      track_sections = (\<lambda>t. if t = 10 then [20] else if t = 11 then [21] else []),
      section_channels = (\<lambda>s. if s = 20 then [30, 31] else if s = 21 then [32] else []),
      channel_keys = (\<lambda>c. if c = 30 then [5, 8, 12] else if c = 32 then [7, 9] else []),
      proxy_sequence = (\<lambda>p. 100),
      binding_id = (\<lambda>p. p),
      display_name = (\<lambda>p. ''shot_0010''),
      bound_objects = (\<lambda>b. [b]),
      master_tracks = (\<lambda>s. []),
      is_camera_cut_track = (\<lambda>t. False),
      is_camera_cut_section = (\<lambda>s. False),
      camera_binding_id = (\<lambda>s. 0),
      spawnables = (\<lambda>s. [3]),
      is_cine_camera = (\<lambda>p. True),
      display_rate = (\<lambda>s. (30, 1))\<rparr>"

text \<open>
  A host for the examples: calls that return nothing leave it as it is, a spawned actor
  is the handle 7 and is bound as the proxy 3, the FBX import succeeds (the keys of
  \<open>demo_host\<close> are the imported ones), and a new master track and a new section are the
  handles 50 and 60.
\<close>

definition demo_api :: host_api where
  "demo_api =
     \<lparr>effect = (\<lambda>e h. h),
      spawn_actor_from_class = (\<lambda>h. (7, h)),
      add_spawnable_from_instance = (\<lambda>s a h. (3, h)),
      import_level_sequence_fbx = (\<lambda>s p f h. (True, h)),
      add_master_track = (\<lambda>s h. (50, h)),
      add_section = (\<lambda>t h. (60, h)),
      path_stem = (\<lambda>p. ''shot0010''),
      path_as_posix = (\<lambda>p. p)\<rparr>"

definition demo_world :: world where
  "demo_world = \<lparr>w_host = demo_host, w_calls = []\<rparr>"

definition demo_camera :: SequenceCamera where
  "demo_camera = SequenceCamera_init demo_host 3"

text \<open>
  The example camera after its start has been read on \<open>demo_host\<close>, so that it holds the
  keys found then, and a later state of the host, in which the channel 31 has keys at
  the frames 2 and 4 (as after another FBX import into the same binding).
\<close>

definition stale_camera :: SequenceCamera where
  "stale_camera = snd (SequenceCamera_start demo_camera demo_host)"

definition later_world :: world where
  "later_world =
     \<lparr>w_host = demo_host\<lparr>channel_keys := (channel_keys demo_host)(31 := [2, 4])\<rparr>, w_calls = []\<rparr>"

text \<open>The cached start and end of a camera are set together.\<close>

definition both_or_none :: "SequenceCamera \<Rightarrow> bool" where
  "both_or_none c = ((priv_start c = None) = (priv_end c = None))"

text \<open>A list of dicts for \<^verbatim>\<open>add_cameras\<close>, the second one empty, and the cameras it returns
  on the example host.\<close>

definition demo_cameras :: "(string \<times> string) list list" where
  "demo_cameras = [[(''shot_0010'', ''a.fbx''), (''ignored'', ''b.fbx'')], [], [(''shot_0010'', ''c.fbx'')]]"

definition demo_result :: "SequenceCamera list" where
  "demo_result =
     [\<lparr>priv_proxy = 3, priv_sequence = 100, priv_start = Some 1001, priv_end = Some 1008,
       priv_key_frames_data = Some [(30, [(30, 0), (30, 1), (30, 2)]), (32, [(32, 0), (32, 1)])]\<rparr>,
      \<lparr>priv_proxy = 3, priv_sequence = 100, priv_start = Some 1009, priv_end = Some 1016,
       priv_key_frames_data = Some [(30, [(30, 0), (30, 1), (30, 2)]), (32, [(32, 0), (32, 1)])]\<rparr>]"

text \<open>The cameras the loop of \<^verbatim>\<open>add_cameras\<close> collects for the same list when no start
  frame is passed, as by default.\<close>

definition demo_default_result :: "SequenceCamera list" where
  "demo_default_result =
     [\<lparr>priv_proxy = 3, priv_sequence = 100, priv_start = Some 5, priv_end = Some 12,
       priv_key_frames_data = Some [(30, [(30, 0), (30, 1), (30, 2)]), (32, [(32, 0), (32, 1)])]\<rparr>,
      \<lparr>priv_proxy = 3, priv_sequence = 100, priv_start = Some 13, priv_end = Some 20,
       priv_key_frames_data = Some [(30, [(30, 0), (30, 1), (30, 2)]), (32, [(32, 0), (32, 1)])]\<rparr>]"

section \<open>Properties of the descriptors\<close>

lemma startswith_iff: "startswith s p \<longleftrightarrow> (\<exists>t. s = p @ t)"
  by (induction s p rule: startswith.induct) auto

lemma str_contains_iff: "str_contains sub s \<longleftrightarrow> (\<exists>a b. s = a @ sub @ b)"
proof (induction s)
  case Nil
  then show ?case by auto
next
  case (Cons c s)
  show ?case
  proof
    assume "str_contains sub (c # s)"
    then consider "startswith (c # s) sub" | "str_contains sub s" by auto
    then show "\<exists>a b. c # s = a @ sub @ b"
    proof cases
      case 1
      then obtain t where "c # s = sub @ t" by (auto simp: startswith_iff)
      then have "c # s = [] @ sub @ t" by simp
      then show ?thesis by blast
    next
      case 2
      then obtain a b where "s = a @ sub @ b" using Cons.IH by auto
      then have "c # s = (c # a) @ sub @ b" by simp
      then show ?thesis by blast
    qed
  next
    assume "\<exists>a b. c # s = a @ sub @ b"
    then obtain a b where ab: "c # s = a @ sub @ b" by blast
    show "str_contains sub (c # s)"
    proof (cases a)
      case Nil
      then have "startswith (c # s) sub" using ab by (auto simp: startswith_iff)
      then show ?thesis by simp
    next
      case (Cons x a')
      then have "s = a' @ sub @ b" using ab by simp
      then have "str_contains sub s" using Cons.IH by blast
      then show ?thesis by simp
    qed
  qed
qed

lemma is_write_value:
  "is_write_coherent p \<Longrightarrow> fst (is_write p) = str_contains ''Write'' (permission p)"
  by (auto simp: is_write_def is_write_coherent_def Let_def split: option.splits)

lemma is_write_keeps_permission: "permission (snd (is_write p)) = permission p"
  by (auto simp: is_write_def Let_def split: option.splits)

lemma is_write_coherent_init:
  "is_write_coherent (fst (NodeCachePropertyBase_init cat nm ptype perm d par pts))"
  by (simp add: NodeCachePropertyBase_init_def is_write_coherent_def split: prod.splits)

lemma is_write_coherent_is_write: "is_write_coherent p \<Longrightarrow> is_write_coherent (snd (is_write p))"
  by (auto simp: is_write_def is_write_coherent_def Let_def split: option.splits)

text \<open>
  C8. For a descriptor whose cached flag is unset or coherent (every descriptor the
  constructor builds, and every one \<open>is_write\<close> has touched), both \<open>set\<close>
  methods raise \<^verbatim>\<open>PropertyError\<close> exactly when the permission string does not
  contain the substring \<^verbatim>\<open>Write\<close>, and when they raise it the subject is the one
  passed in: the host setter was not called.
\<close>

theorem set_raises_iff_not_write:
  assumes "is_write_coherent p"
  shows "(is_PropertyError (fst (NodeCacheEditorProperty_set h p v s))
           \<longleftrightarrow> \<not> (\<exists>a b. permission p = a @ ''Write'' @ b))
       \<and> (is_PropertyError (fst (NodeCacheClassProperty_set h' p v s))
           \<longleftrightarrow> \<not> (\<exists>a b. permission p = a @ ''Write'' @ b))
       \<and> (is_PropertyError (fst (NodeCacheEditorProperty_set h p v s))
           \<longrightarrow> snd (snd (NodeCacheEditorProperty_set h p v s)) = s)
       \<and> (is_PropertyError (fst (NodeCacheClassProperty_set h' p v s))
           \<longrightarrow> snd (snd (NodeCacheClassProperty_set h' p v s)) = s)"
  using is_write_value[OF assms] unfolding str_contains_iff[symmetric]
  by (auto simp: NodeCacheEditorProperty_set_def NodeCacheClassProperty_set_def
        is_PropertyError_def split: prod.splits option.splits)

theorem set_raises_iff_not_write_witness:
  "is_write_coherent
     (fst (NodeCachePropertyBase_init EDITOR ''mobility'' ''bool'' ''Read-Only'' ''d'' 0
            \<lparr>pt_CACHE_DATA = Map.empty, pt_objects = []\<rparr>))
   \<and> is_PropertyError (fst (NodeCacheEditorProperty_set (\<lambda>n v s. (None, v))
        (fst (NodeCachePropertyBase_init EDITOR ''mobility'' ''bool'' ''Read-Only'' ''d'' 0
            \<lparr>pt_CACHE_DATA = Map.empty, pt_objects = []\<rparr>)) (1::nat) (0::nat)))
   \<and> snd (snd (NodeCacheEditorProperty_set (\<lambda>n v s. (None, v))
        (fst (NodeCachePropertyBase_init EDITOR ''mobility'' ''bool'' ''Read-Only'' ''d'' 0
            \<lparr>pt_CACHE_DATA = Map.empty, pt_objects = []\<rparr>)) (1::nat) (0::nat))) = 0"
proof -
  let ?p = "fst (NodeCachePropertyBase_init EDITOR ''mobility'' ''bool'' ''Read-Only'' ''d'' 0
            \<lparr>pt_CACHE_DATA = Map.empty, pt_objects = []\<rparr>)"
  have h: "is_write_coherent ?p" by (rule is_write_coherent_init)
  have perm: "permission ?p = ''Read-Only''"
    by (simp add: NodeCachePropertyBase_init_def split: prod.splits)
  have no: "\<not> (\<exists>a b. permission ?p = a @ ''Write'' @ b)"
    unfolding perm str_contains_iff[symmetric] by simp
  show ?thesis
    using h no set_raises_iff_not_write [OF h, of "\<lambda>n v s. (None, v)" "1::nat" "0::nat"]
    by blast
qed

section \<open>Properties of the memoizing factories\<close>

lemma PropertyType_call_keeps:
  "pt_CACHE_DATA st k = Some a \<Longrightarrow> pt_CACHE_DATA (snd (PropertyType_call k' st)) k = Some a"
  by (auto simp: PropertyType_call_def Let_def split: option.splits)

lemma PropertyType_calls_keeps:
  "pt_CACHE_DATA st k = Some a \<Longrightarrow> pt_CACHE_DATA (PropertyType_calls ks st) k = Some a"
  unfolding PropertyType_calls_def
  by (induction ks arbitrary: st) (auto simp: PropertyType_call_keeps)

lemma PropertyType_call_stores:
  "pt_CACHE_DATA (snd (PropertyType_call k st)) k = Some (fst (PropertyType_call k st))"
  by (auto simp: PropertyType_call_def Let_def split: option.splits)

lemma PropertyType_call_hit:
  "pt_CACHE_DATA st k = Some a \<Longrightarrow> fst (PropertyType_call k st) = a"
  by (auto simp: PropertyType_call_def)

lemma NodeCacheProperty_call_keeps:
  "prop_CACHE_DATA st k = Some a \<Longrightarrow> prop_CACHE_DATA (snd (NodeCacheProperty_call i s st)) k = Some a"
  by (auto simp: NodeCacheProperty_call_def Let_def split: option.splits)

lemma NodeCacheProperty_calls_keeps:
  "prop_CACHE_DATA st k = Some a \<Longrightarrow> prop_CACHE_DATA (NodeCacheProperty_calls ks st) k = Some a"
  unfolding NodeCacheProperty_calls_def
  by (induction ks arbitrary: st) (auto simp: NodeCacheProperty_call_keeps)

lemma NodeCacheProperty_call_stores:
  "prop_CACHE_DATA (snd (NodeCacheProperty_call i s st)) (property_key i s) = Some (fst (NodeCacheProperty_call i s st))"
  by (auto simp: NodeCacheProperty_call_def Let_def split: option.splits)

lemma NodeCacheProperty_call_hit:
  "prop_CACHE_DATA st (property_key i s) = Some a \<Longrightarrow> fst (NodeCacheProperty_call i s st) = a"
  by (auto simp: NodeCacheProperty_call_def)

lemma property_key_cong:
  "name p' = name p \<Longrightarrow> category p' = category p \<Longrightarrow> property_key p' s = property_key p s"
  by (simp add: property_key_def)

lemma NodeCache_call_keeps:
  "nc_CACHE_DATA st k = Some a \<Longrightarrow> nc_CACHE_DATA (snd (NodeCache_call unreal k' st)) k = Some a"
  by (auto simp: NodeCache_call_def Let_def split: option.splits)

lemma NodeCache_calls_keeps:
  "nc_CACHE_DATA st k = Some a \<Longrightarrow> nc_CACHE_DATA (NodeCache_calls unreal ks st) k = Some a"
  unfolding NodeCache_calls_def
  by (induction ks arbitrary: st) (auto simp: NodeCache_call_keeps)

lemma NodeCache_call_returns:
  "\<not> not_getattr unreal n \<Longrightarrow> \<exists>a. fst (NodeCache_call unreal (Some n) st) = Inr a"
  by (auto simp: NodeCache_call_def not_getattr_def Let_def split: option.splits)

lemma NodeCache_call_stores:
  "fst (NodeCache_call unreal (Some n) st) = Inr a \<Longrightarrow> nc_CACHE_DATA (snd (NodeCache_call unreal (Some n) st)) n = Some a"
  by (auto simp: NodeCache_call_def Let_def split: option.splits if_splits)

lemma NodeCache_call_hit:
  "\<not> not_getattr unreal n \<Longrightarrow> nc_CACHE_DATA st n = Some a \<Longrightarrow> fst (NodeCache_call unreal (Some n) st) = Inr a"
  by (auto simp: NodeCache_call_def)

lemma demo_unreal_Actor: "\<not> not_getattr demo_unreal ''Actor''"
  by (simp add: not_getattr_def demo_unreal_def demo_cls_def)

lemma demo_unreal_Nope: "not_getattr demo_unreal ''Nope''"
  by (simp add: not_getattr_def demo_unreal_def)

lemma demo_unreal_package: "demo_unreal ''__package__'' = Some empty_str_attr"
  by (simp add: demo_unreal_def)

lemma pts_extends_refl: "pts_extends pts pts"
  by (simp add: pts_extends_def)

lemma pts_extends_trans: "pts_extends a b \<Longrightarrow> pts_extends b c \<Longrightarrow> pts_extends a c"
  by (auto simp: pts_extends_def)

lemma PropertyType_call_coherent:
  assumes "pts_coherent pts"
  shows "pts_coherent (snd (PropertyType_call k pts))
       \<and> pts_extends pts (snd (PropertyType_call k pts))
       \<and> fst (PropertyType_call k pts) < length (pt_objects (snd (PropertyType_call k pts)))
       \<and> pt_name (pt_objects (snd (PropertyType_call k pts)) ! fst (PropertyType_call k pts)) = k"
proof (cases "pt_CACHE_DATA pts k")
  case None
  have "pts_coherent (snd (PropertyType_call k pts))"
    unfolding pts_coherent_def
  proof (intro allI impI)
    fix k' a
    assume h: "pt_CACHE_DATA (snd (PropertyType_call k pts)) k' = Some a"
    show "a < length (pt_objects (snd (PropertyType_call k pts)))
        \<and> pt_name (pt_objects (snd (PropertyType_call k pts)) ! a) = k'"
    proof (cases "k' = k")
      case True
      then show ?thesis using h None
        by (auto simp: PropertyType_call_def Let_def PropertyType_init_def nth_append)
    next
      case False
      then have "pt_CACHE_DATA pts k' = Some a" using h None
        by (simp add: PropertyType_call_def Let_def)
      then have "a < length (pt_objects pts) \<and> pt_name (pt_objects pts ! a) = k'"
        using assms by (simp add: pts_coherent_def)
      then show ?thesis using None
        by (simp add: PropertyType_call_def Let_def nth_append)
    qed
  qed
  then show ?thesis using None
    by (simp add: PropertyType_call_def pts_extends_def Let_def PropertyType_init_def nth_append)
next
  case (Some a)
  then show ?thesis using assms
    by (auto simp: PropertyType_call_def pts_coherent_def pts_extends_def)
qed

lemma nc_coherent_empty: "nc_coherent ncs0"
  by (simp add: nc_coherent_def ncs0_def)

lemma prop_coherent_empty: "prop_coherent props0"
  by (simp add: prop_coherent_def props0_def)

lemma pts_coherent_empty: "pts_coherent pts0"
  by (simp add: pts_coherent_def pts0_def)

lemma NodeCache_call_cases':
  "(\<exists>e. NodeCache_call unreal k st = (Inl e, st))
   \<or> (\<exists>n a. k = Some n \<and> nc_CACHE_DATA st n = Some a \<and> NodeCache_call unreal k st = (Inr a, st))
   \<or> (\<exists>n cls. k = Some n \<and> nc_CACHE_DATA st n = None \<and> unreal n = Some cls
         \<and> NodeCache_call unreal k st
            = (Inr (length (nc_objects st)),
               st\<lparr>nc_CACHE_DATA := (nc_CACHE_DATA st)(n \<mapsto> length (nc_objects st)),
                  nc_objects := nc_objects st @ [NodeCache_init cls n (length (nc_objects st))]\<rparr>))"
  by (auto simp: NodeCache_call_def Let_def split: option.splits)

lemma NodeCache_call_coherent:
  assumes "nc_coherent st"
  shows "nc_coherent (snd (NodeCache_call unreal k st))
       \<and> (\<exists>ys. nc_objects (snd (NodeCache_call unreal k st)) = nc_objects st @ ys)"
  using NodeCache_call_cases'[of unreal k st]
proof (elim disjE exE conjE)
  fix e assume "NodeCache_call unreal k st = (Inl e, st)"
  then show ?thesis using assms by simp
next
  fix n a assume "NodeCache_call unreal k st = (Inr a, st)"
  then show ?thesis using assms by simp
next
  fix n cls
  assume h: "nc_CACHE_DATA st n = None"
    and c: "NodeCache_call unreal k st
            = (Inr (length (nc_objects st)),
               st\<lparr>nc_CACHE_DATA := (nc_CACHE_DATA st)(n \<mapsto> length (nc_objects st)),
                  nc_objects := nc_objects st @ [NodeCache_init cls n (length (nc_objects st))]\<rparr>)"
  have "\<And>k' a. nc_CACHE_DATA st k' = Some a \<Longrightarrow> a < length (nc_objects st) \<and> node_type (nc_objects st ! a) = k'"
    using assms by (simp add: nc_coherent_def)
  then show ?thesis unfolding c using h
    by (fastforce simp: nc_coherent_def nth_append NodeCache_init_def less_Suc_eq)
qed

lemma NodeCache_calls_coherent:
  "nc_coherent st \<Longrightarrow>
     nc_coherent (NodeCache_calls unreal ks st)
     \<and> (\<exists>ys. nc_objects (NodeCache_calls unreal ks st) = nc_objects st @ ys)"
  unfolding NodeCache_calls_def
proof (induction ks arbitrary: st)
  case Nil
  then show ?case by simp
next
  case (Cons k ks)
  let ?st1 = "snd (NodeCache_call unreal k st)"
  obtain ys where c1: "nc_coherent ?st1" and y: "nc_objects ?st1 = nc_objects st @ ys"
    using NodeCache_call_coherent[OF Cons.prems, of unreal k] by blast
  obtain zs where "nc_coherent (fold (\<lambda>k s. snd (NodeCache_call unreal k s)) ks ?st1)"
    and "nc_objects (fold (\<lambda>k s. snd (NodeCache_call unreal k s)) ks ?st1) = nc_objects ?st1 @ zs"
    using Cons.IH[OF c1] by blast
  then show ?case using y by simp
qed

lemma NodeCache_memo_full:
  assumes g: "\<not> not_getattr unreal n"
  shows "\<exists>a st1. NodeCache_call unreal (Some n) st = (Inr a, st1)
     \<and> nc_CACHE_DATA st1 n = Some a
     \<and> (nc_CACHE_DATA st n = None \<longrightarrow>
          (\<exists>cls. unreal n = Some cls \<and> a = length (nc_objects st)
             \<and> nc_objects st1 = nc_objects st @ [NodeCache_init cls n a]))
     \<and> (nc_CACHE_DATA st n \<noteq> None \<longrightarrow> st1 = st)
     \<and> NodeCache_call unreal (Some n) (NodeCache_calls unreal ks st1)
          = (Inr a, NodeCache_calls unreal ks st1)
     \<and> (nc_coherent st \<longrightarrow>
          a < length (nc_objects st1) \<and> node_type (nc_objects st1 ! a) = n
          \<and> nc_objects (NodeCache_calls unreal ks st1) ! a = nc_objects st1 ! a)"
proof -
  obtain r st1 where c: "NodeCache_call unreal (Some n) st = (r, st1)"
    by (cases "NodeCache_call unreal (Some n) st")
  obtain a where a: "r = Inr a"
    using NodeCache_call_returns[OF g, of st] c by auto
  have stored: "nc_CACHE_DATA st1 n = Some a"
    using NodeCache_call_stores[of unreal n st a] c a by simp
  have fresh: "nc_CACHE_DATA st n = None \<longrightarrow>
          (\<exists>cls. unreal n = Some cls \<and> a = length (nc_objects st)
             \<and> nc_objects st1 = nc_objects st @ [NodeCache_init cls n a])"
    using c a g by (auto simp: NodeCache_call_def Let_def not_getattr_def split: option.splits)
  have cached: "nc_CACHE_DATA st n \<noteq> None \<longrightarrow> st1 = st"
    using c a g by (auto simp: NodeCache_call_def Let_def split: option.splits)
  let ?st2 = "NodeCache_calls unreal ks st1"
  have k2: "nc_CACHE_DATA ?st2 n = Some a"
    by (rule NodeCache_calls_keeps[OF stored])
  have later: "NodeCache_call unreal (Some n) ?st2 = (Inr a, ?st2)"
    using g k2 by (simp add: NodeCache_call_def)
  have coh: "nc_coherent st \<longrightarrow>
          a < length (nc_objects st1) \<and> node_type (nc_objects st1 ! a) = n
          \<and> nc_objects ?st2 ! a = nc_objects st1 ! a"
  proof
    assume h: "nc_coherent st"
    have c1: "nc_coherent st1"
      using NodeCache_call_coherent[OF h, of unreal "Some n"] c by simp
    then have in1: "a < length (nc_objects st1) \<and> node_type (nc_objects st1 ! a) = n"
      using stored by (simp add: nc_coherent_def)
    obtain ys where "nc_objects ?st2 = nc_objects st1 @ ys"
      using NodeCache_calls_coherent[OF c1, of unreal ks] by blast
    then show "a < length (nc_objects st1) \<and> node_type (nc_objects st1 ! a) = n
          \<and> nc_objects ?st2 ! a = nc_objects st1 ! a"
      using in1 by (simp add: nth_append)
  qed
  show ?thesis
    apply (rule exI[of _ a], rule exI[of _ st1])
    using c a stored fresh cached later coh by simp
qed

lemma PropertyType_calls_coherent:
  "pts_coherent st \<Longrightarrow>
     pts_coherent (PropertyType_calls ks st) \<and> pts_extends st (PropertyType_calls ks st)"
  unfolding PropertyType_calls_def
proof (induction ks arbitrary: st)
  case Nil
  then show ?case by (simp add: pts_extends_refl)
next
  case (Cons k ks)
  let ?st1 = "snd (PropertyType_call k st)"
  have c1: "pts_coherent ?st1" and e1: "pts_extends st ?st1"
    using PropertyType_call_coherent[OF Cons.prems, of k] by simp_all
  show ?case using Cons.IH[OF c1] pts_extends_trans[OF e1] by simp
qed

lemma PropertyType_memo_full:
  "\<exists>a st1. PropertyType_call s st = (a, st1)
     \<and> pt_CACHE_DATA st1 s = Some a
     \<and> (pt_CACHE_DATA st s = None \<longrightarrow>
          a = length (pt_objects st) \<and> pt_objects st1 = pt_objects st @ [PropertyType_init s])
     \<and> (pt_CACHE_DATA st s \<noteq> None \<longrightarrow> st1 = st)
     \<and> PropertyType_call s (PropertyType_calls ss st1) = (a, PropertyType_calls ss st1)
     \<and> (pts_coherent st \<longrightarrow>
          a < length (pt_objects st1) \<and> pt_name (pt_objects st1 ! a) = s
          \<and> pt_objects (PropertyType_calls ss st1) ! a = pt_objects st1 ! a)"
proof -
  obtain a st1 where c: "PropertyType_call s st = (a, st1)"
    by (cases "PropertyType_call s st")
  have stored: "pt_CACHE_DATA st1 s = Some a"
    using PropertyType_call_stores[of s st] c by simp
  have fresh: "pt_CACHE_DATA st s = None \<longrightarrow>
          a = length (pt_objects st) \<and> pt_objects st1 = pt_objects st @ [PropertyType_init s]"
    using c by (auto simp: PropertyType_call_def Let_def)
  have cached: "pt_CACHE_DATA st s \<noteq> None \<longrightarrow> st1 = st"
    using c by (auto simp: PropertyType_call_def Let_def split: option.splits)
  let ?st2 = "PropertyType_calls ss st1"
  have k2: "pt_CACHE_DATA ?st2 s = Some a"
    by (rule PropertyType_calls_keeps[OF stored])
  have later: "PropertyType_call s ?st2 = (a, ?st2)"
    using k2 by (simp add: PropertyType_call_def)
  have coh: "pts_coherent st \<longrightarrow>
          a < length (pt_objects st1) \<and> pt_name (pt_objects st1 ! a) = s
          \<and> pt_objects ?st2 ! a = pt_objects st1 ! a"
  proof
    assume h: "pts_coherent st"
    have c1: "pts_coherent st1"
      using PropertyType_call_coherent[OF h, of s] c by simp
    then have in1: "a < length (pt_objects st1) \<and> pt_name (pt_objects st1 ! a) = s"
      using stored by (simp add: pts_coherent_def)
    obtain ys where "pt_objects ?st2 = pt_objects st1 @ ys"
      using PropertyType_calls_coherent[OF c1, of ss] by (auto simp: pts_extends_def)
    then show "a < length (pt_objects st1) \<and> pt_name (pt_objects st1 ! a) = s
          \<and> pt_objects ?st2 ! a = pt_objects st1 ! a"
      using in1 by (simp add: nth_append)
  qed
  show ?thesis
    apply (rule exI[of _ a], rule exI[of _ st1])
    using c stored fresh cached later coh by simp
qed

lemma NodeCacheProperty_call_coherent:
  assumes "prop_coherent st"
  shows "prop_coherent (snd (NodeCacheProperty_call i s st))
       \<and> (\<exists>ys. prop_objects (snd (NodeCacheProperty_call i s st)) = prop_objects st @ ys)"
proof (cases "prop_CACHE_DATA st (property_key i s)")
  case None
  have "\<And>k a. prop_CACHE_DATA st k = Some a \<Longrightarrow> a < length (prop_objects st)
        \<and> property_key (priv_property (prop_objects st ! a)) (priv_subject (prop_objects st ! a)) = k"
    using assms by (simp add: prop_coherent_def)
  then show ?thesis using None
    by (fastforce simp: NodeCacheProperty_call_def Let_def prop_coherent_def nth_append
          NodeCacheProperty_init_def less_Suc_eq)
next
  case (Some a)
  then show ?thesis using assms by (simp add: NodeCacheProperty_call_def)
qed

lemma NodeCacheProperty_calls_coherent:
  "prop_coherent st \<Longrightarrow>
     prop_coherent (NodeCacheProperty_calls ks st)
     \<and> (\<exists>ys. prop_objects (NodeCacheProperty_calls ks st) = prop_objects st @ ys)"
  unfolding NodeCacheProperty_calls_def
proof (induction ks arbitrary: st)
  case Nil
  then show ?case by simp
next
  case (Cons k ks)
  obtain i s where k: "k = (i, s)" by (cases k)
  let ?st1 = "snd (NodeCacheProperty_call i s st)"
  obtain ys where c1: "prop_coherent ?st1" and y: "prop_objects ?st1 = prop_objects st @ ys"
    using NodeCacheProperty_call_coherent[OF Cons.prems, of i s] by blast
  obtain zs where "prop_coherent (fold (\<lambda>(ins, subject) s. snd (NodeCacheProperty_call ins subject s)) ks ?st1)"
    and "prop_objects (fold (\<lambda>(ins, subject) s. snd (NodeCacheProperty_call ins subject s)) ks ?st1)
           = prop_objects ?st1 @ zs"
    using Cons.IH[OF c1] by blast
  then show ?case using y k by simp
qed

lemma NodeCacheProperty_memo_full:
  assumes same: "name p' = name p" "category p' = category p"
  shows "\<exists>a st1. NodeCacheProperty_call p subject st = (a, st1)
     \<and> prop_CACHE_DATA st1 (property_key p subject) = Some a
     \<and> (prop_CACHE_DATA st (property_key p subject) = None \<longrightarrow>
          a = length (prop_objects st)
          \<and> prop_objects st1 = prop_objects st @ [NodeCacheProperty_init p subject])
     \<and> (prop_CACHE_DATA st (property_key p subject) \<noteq> None \<longrightarrow> st1 = st)
     \<and> NodeCacheProperty_call p' subject (NodeCacheProperty_calls ps st1)
          = (a, NodeCacheProperty_calls ps st1)
     \<and> (prop_coherent st \<longrightarrow>
          a < length (prop_objects st1)
          \<and> property_key (priv_property (prop_objects st1 ! a)) (priv_subject (prop_objects st1 ! a))
              = property_key p subject
          \<and> prop_objects (NodeCacheProperty_calls ps st1) ! a = prop_objects st1 ! a)"
proof -
  obtain a st1 where c: "NodeCacheProperty_call p subject st = (a, st1)"
    by (cases "NodeCacheProperty_call p subject st")
  have stored: "prop_CACHE_DATA st1 (property_key p subject) = Some a"
    using NodeCacheProperty_call_stores[of p subject st] c by simp
  have fresh: "prop_CACHE_DATA st (property_key p subject) = None \<longrightarrow>
          a = length (prop_objects st)
          \<and> prop_objects st1 = prop_objects st @ [NodeCacheProperty_init p subject]"
    using c by (auto simp: NodeCacheProperty_call_def Let_def)
  have cached: "prop_CACHE_DATA st (property_key p subject) \<noteq> None \<longrightarrow> st1 = st"
    using c by (auto simp: NodeCacheProperty_call_def Let_def split: option.splits)
  let ?st2 = "NodeCacheProperty_calls ps st1"
  have k2: "prop_CACHE_DATA ?st2 (property_key p' subject) = Some a"
    unfolding property_key_cong[OF same] by (rule NodeCacheProperty_calls_keeps[OF stored])
  have later: "NodeCacheProperty_call p' subject ?st2 = (a, ?st2)"
    using k2 by (simp add: NodeCacheProperty_call_def)
  have coh: "prop_coherent st \<longrightarrow>
          a < length (prop_objects st1)
          \<and> property_key (priv_property (prop_objects st1 ! a)) (priv_subject (prop_objects st1 ! a))
              = property_key p subject
          \<and> prop_objects ?st2 ! a = prop_objects st1 ! a"
  proof
    assume h: "prop_coherent st"
    have c1: "prop_coherent st1"
      using NodeCacheProperty_call_coherent[OF h, of p subject] c by simp
    then have in1: "a < length (prop_objects st1)
          \<and> property_key (priv_property (prop_objects st1 ! a)) (priv_subject (prop_objects st1 ! a))
              = property_key p subject"
      using stored by (simp add: prop_coherent_def)
    obtain ys where "prop_objects ?st2 = prop_objects st1 @ ys"
      using NodeCacheProperty_calls_coherent[OF c1, of ps] by blast
    then show "a < length (prop_objects st1)
          \<and> property_key (priv_property (prop_objects st1 ! a)) (priv_subject (prop_objects st1 ! a))
              = property_key p subject
          \<and> prop_objects ?st2 ! a = prop_objects st1 ! a"
      using in1 by (simp add: nth_append)
  qed
  show ?thesis
    apply (rule exI[of _ a], rule exI[of _ st1])
    using c stored fresh cached later coh by simp
qed


lemma demo_unreal_Actor_cls: "demo_unreal ''Actor'' = Some demo_cls"
  by (simp add: demo_unreal_def)

text \<open>
  C6. The three factories memoize. For a node type that passes the guard, a call of
  \<open>NodeCache_call\<close> returns an instance and leaves it in the dict under the node type:
  when the node type was not in the dict the instance is a new one, built by
  \<open>NodeCache_init\<close> from the host class and appended to the instances, and when it was
  the call changes nothing. A later call with the same node type, after any run of calls
  of the factory, returns the same instance and changes nothing. Starting from a
  coherent state (as the empty cache is) the instance returned is one of the instances
  created, it has that node type, and the run in between has left it in its place.
  The same holds of \<open>PropertyType_call\<close> for a string and of \<open>NodeCacheProperty_call\<close>
  for a subject and a descriptor; there the later call may pass another descriptor of
  the same name and category, which gives the same key.
\<close>

theorem factories_memoize:
  "(\<not> not_getattr unreal n \<longrightarrow>
      (\<exists>a st1. NodeCache_call unreal (Some n) st = (Inr a, st1)
         \<and> nc_CACHE_DATA st1 n = Some a
         \<and> (nc_CACHE_DATA st n = None \<longrightarrow>
              (\<exists>cls. unreal n = Some cls \<and> a = length (nc_objects st)
                 \<and> nc_objects st1 = nc_objects st @ [NodeCache_init cls n a]))
         \<and> (nc_CACHE_DATA st n \<noteq> None \<longrightarrow> st1 = st)
         \<and> NodeCache_call unreal (Some n) (NodeCache_calls unreal ks st1)
              = (Inr a, NodeCache_calls unreal ks st1)
         \<and> (nc_coherent st \<longrightarrow>
              a < length (nc_objects st1) \<and> node_type (nc_objects st1 ! a) = n
              \<and> nc_objects (NodeCache_calls unreal ks st1) ! a = nc_objects st1 ! a)))
   \<and> (\<exists>a pts1. PropertyType_call s pts = (a, pts1)
         \<and> pt_CACHE_DATA pts1 s = Some a
         \<and> (pt_CACHE_DATA pts s = None \<longrightarrow>
              a = length (pt_objects pts) \<and> pt_objects pts1 = pt_objects pts @ [PropertyType_init s])
         \<and> (pt_CACHE_DATA pts s \<noteq> None \<longrightarrow> pts1 = pts)
         \<and> PropertyType_call s (PropertyType_calls ss pts1) = (a, PropertyType_calls ss pts1)
         \<and> (pts_coherent pts \<longrightarrow>
              a < length (pt_objects pts1) \<and> pt_name (pt_objects pts1 ! a) = s
              \<and> pt_objects (PropertyType_calls ss pts1) ! a = pt_objects pts1 ! a))
   \<and> (name p' = name p \<and> category p' = category p \<longrightarrow>
        (\<exists>a props1. NodeCacheProperty_call p subject props = (a, props1)
           \<and> prop_CACHE_DATA props1 (property_key p subject) = Some a
           \<and> (prop_CACHE_DATA props (property_key p subject) = None \<longrightarrow>
                a = length (prop_objects props)
                \<and> prop_objects props1 = prop_objects props @ [NodeCacheProperty_init p subject])
           \<and> (prop_CACHE_DATA props (property_key p subject) \<noteq> None \<longrightarrow> props1 = props)
           \<and> NodeCacheProperty_call p' subject (NodeCacheProperty_calls ps props1)
                = (a, NodeCacheProperty_calls ps props1)
           \<and> (prop_coherent props \<longrightarrow>
                a < length (prop_objects props1)
                \<and> property_key (priv_property (prop_objects props1 ! a))
                     (priv_subject (prop_objects props1 ! a)) = property_key p subject
                \<and> prop_objects (NodeCacheProperty_calls ps props1) ! a = prop_objects props1 ! a)))"
proof (intro conjI impI)
  assume "\<not> not_getattr unreal n"
  then show "\<exists>a st1. NodeCache_call unreal (Some n) st = (Inr a, st1)
         \<and> nc_CACHE_DATA st1 n = Some a
         \<and> (nc_CACHE_DATA st n = None \<longrightarrow>
              (\<exists>cls. unreal n = Some cls \<and> a = length (nc_objects st)
                 \<and> nc_objects st1 = nc_objects st @ [NodeCache_init cls n a]))
         \<and> (nc_CACHE_DATA st n \<noteq> None \<longrightarrow> st1 = st)
         \<and> NodeCache_call unreal (Some n) (NodeCache_calls unreal ks st1)
              = (Inr a, NodeCache_calls unreal ks st1)
         \<and> (nc_coherent st \<longrightarrow>
              a < length (nc_objects st1) \<and> node_type (nc_objects st1 ! a) = n
              \<and> nc_objects (NodeCache_calls unreal ks st1) ! a = nc_objects st1 ! a)"
    by (rule NodeCache_memo_full)
next
  show "\<exists>a pts1. PropertyType_call s pts = (a, pts1)
         \<and> pt_CACHE_DATA pts1 s = Some a
         \<and> (pt_CACHE_DATA pts s = None \<longrightarrow>
              a = length (pt_objects pts) \<and> pt_objects pts1 = pt_objects pts @ [PropertyType_init s])
         \<and> (pt_CACHE_DATA pts s \<noteq> None \<longrightarrow> pts1 = pts)
         \<and> PropertyType_call s (PropertyType_calls ss pts1) = (a, PropertyType_calls ss pts1)
         \<and> (pts_coherent pts \<longrightarrow>
              a < length (pt_objects pts1) \<and> pt_name (pt_objects pts1 ! a) = s
              \<and> pt_objects (PropertyType_calls ss pts1) ! a = pt_objects pts1 ! a)"
    by (rule PropertyType_memo_full)
next
  assume "name p' = name p \<and> category p' = category p"
  then have "name p' = name p" "category p' = category p" by simp_all
  then show "\<exists>a props1. NodeCacheProperty_call p subject props = (a, props1)
           \<and> prop_CACHE_DATA props1 (property_key p subject) = Some a
           \<and> (prop_CACHE_DATA props (property_key p subject) = None \<longrightarrow>
                a = length (prop_objects props)
                \<and> prop_objects props1 = prop_objects props @ [NodeCacheProperty_init p subject])
           \<and> (prop_CACHE_DATA props (property_key p subject) \<noteq> None \<longrightarrow> props1 = props)
           \<and> NodeCacheProperty_call p' subject (NodeCacheProperty_calls ps props1)
                = (a, NodeCacheProperty_calls ps props1)
           \<and> (prop_coherent props \<longrightarrow>
                a < length (prop_objects props1)
                \<and> property_key (priv_property (prop_objects props1 ! a))
                     (priv_subject (prop_objects props1 ! a)) = property_key p subject
                \<and> prop_objects (NodeCacheProperty_calls ps props1) ! a = prop_objects props1 ! a)"
    by (rule NodeCacheProperty_memo_full)
qed

theorem factories_memoize_witness:
  "\<not> not_getattr demo_unreal ''Actor'' \<and> nc_CACHE_DATA ncs0 ''Actor'' = None \<and> nc_coherent ncs0
   \<and> (\<exists>st1. NodeCache_call demo_unreal (Some ''Actor'') ncs0 = (Inr 0, st1)
         \<and> nc_objects st1 = [NodeCache_init demo_cls ''Actor'' 0]
         \<and> nc_CACHE_DATA st1 ''Actor'' = Some 0
         \<and> NodeCache_call demo_unreal (Some ''Actor'') (NodeCache_calls demo_unreal [Some ''Plain'', None] st1)
              = (Inr 0, NodeCache_calls demo_unreal [Some ''Plain'', None] st1)
         \<and> nc_objects (NodeCache_calls demo_unreal [Some ''Plain'', None] st1) ! 0
              = NodeCache_init demo_cls ''Actor'' 0
         \<and> nc_CACHE_DATA st1 ''Actor'' \<noteq> None
         \<and> NodeCache_call demo_unreal (Some ''Actor'') st1 = (Inr 0, st1))
   \<and> pt_CACHE_DATA pts0 ''bool'' = None \<and> pts_coherent pts0
   \<and> (\<exists>pts1. PropertyType_call ''bool'' pts0 = (0, pts1)
         \<and> pt_objects pts1 = [PropertyType_init ''bool'']
         \<and> PropertyType_call ''bool'' (PropertyType_calls [''int32''] pts1)
              = (0, PropertyType_calls [''int32''] pts1)
         \<and> pt_objects (PropertyType_calls [''int32''] pts1) ! 0 = PropertyType_init ''bool'')
   \<and> name (demo_prop\<lparr>des := ''other''\<rparr>) = name demo_prop
   \<and> category (demo_prop\<lparr>des := ''other''\<rparr>) = category demo_prop
   \<and> prop_CACHE_DATA props0 (property_key demo_prop 7) = None \<and> prop_coherent props0
   \<and> (\<exists>props1. NodeCacheProperty_call demo_prop 7 props0 = (0, props1)
         \<and> prop_objects props1 = [NodeCacheProperty_init demo_prop 7]
         \<and> NodeCacheProperty_call (demo_prop\<lparr>des := ''other''\<rparr>) 7
              (NodeCacheProperty_calls [(demo_prop, 8)] props1)
              = (0, NodeCacheProperty_calls [(demo_prop, 8)] props1)
         \<and> prop_objects (NodeCacheProperty_calls [(demo_prop, 8)] props1) ! 0
              = NodeCacheProperty_init demo_prop 7)"
proof -
  note T = factories_memoize [where unreal = demo_unreal and n = "''Actor''" and st = ncs0
      and ks = "[Some ''Plain'', None]" and s = "''bool''" and pts = pts0 and ss = "[''int32'']"
      and p' = "demo_prop\<lparr>des := ''other''\<rparr>" and p = demo_prop and subject = 7 and props = props0
      and ps = "[(demo_prop, 8)]"]
  have g: "\<not> not_getattr demo_unreal ''Actor''" by (rule demo_unreal_Actor)
  have f1: "nc_CACHE_DATA ncs0 ''Actor'' = None" "nc_objects ncs0 = []" by (simp_all add: ncs0_def)
  have f2: "pt_CACHE_DATA pts0 ''bool'' = None" "pt_objects pts0 = []" by (simp_all add: pts0_def)
  have f3: "prop_CACHE_DATA props0 (property_key demo_prop 7) = None" "prop_objects props0 = []"
    by (simp_all add: props0_def)
  have h: "name (demo_prop\<lparr>des := ''other''\<rparr>) = name demo_prop
     \<and> category (demo_prop\<lparr>des := ''other''\<rparr>) = category demo_prop"
    by simp
  obtain a st1 where n1: "NodeCache_call demo_unreal (Some ''Actor'') ncs0 = (Inr a, st1)"
    and n2: "nc_CACHE_DATA st1 ''Actor'' = Some a"
    and n3: "\<exists>cls. demo_unreal ''Actor'' = Some cls \<and> a = length (nc_objects ncs0)
                 \<and> nc_objects st1 = nc_objects ncs0 @ [NodeCache_init cls ''Actor'' a]"
    and n4: "NodeCache_call demo_unreal (Some ''Actor'') (NodeCache_calls demo_unreal [Some ''Plain'', None] st1)
              = (Inr a, NodeCache_calls demo_unreal [Some ''Plain'', None] st1)"
    and n5: "nc_objects (NodeCache_calls demo_unreal [Some ''Plain'', None] st1) ! a = nc_objects st1 ! a"
    using T g f1(1) nc_coherent_empty by blast
  have a0: "a = 0" and o1: "nc_objects st1 = [NodeCache_init demo_cls ''Actor'' 0]"
    using n3 f1(2) demo_unreal_Actor_cls by auto
  obtain a' st' where "NodeCache_call demo_unreal (Some ''Actor'') st1 = (Inr a', st')"
    and "nc_CACHE_DATA st' ''Actor'' = Some a'" and "st' = st1"
    using factories_memoize [where unreal = demo_unreal and n = "''Actor''" and st = st1] g n2
    by blast
  then have n6: "NodeCache_call demo_unreal (Some ''Actor'') st1 = (Inr 0, st1)"
    using n2 a0 by simp
  have N: "\<exists>st1. NodeCache_call demo_unreal (Some ''Actor'') ncs0 = (Inr 0, st1)
         \<and> nc_objects st1 = [NodeCache_init demo_cls ''Actor'' 0]
         \<and> nc_CACHE_DATA st1 ''Actor'' = Some 0
         \<and> NodeCache_call demo_unreal (Some ''Actor'') (NodeCache_calls demo_unreal [Some ''Plain'', None] st1)
              = (Inr 0, NodeCache_calls demo_unreal [Some ''Plain'', None] st1)
         \<and> nc_objects (NodeCache_calls demo_unreal [Some ''Plain'', None] st1) ! 0
              = NodeCache_init demo_cls ''Actor'' 0
         \<and> nc_CACHE_DATA st1 ''Actor'' \<noteq> None
         \<and> NodeCache_call demo_unreal (Some ''Actor'') st1 = (Inr 0, st1)"
    apply (rule exI[of _ st1])
    using n1 n2 n4 n5 n6 a0 o1 by simp
  obtain b pts1 where p1: "PropertyType_call ''bool'' pts0 = (b, pts1)"
    and p3: "b = length (pt_objects pts0) \<and> pt_objects pts1 = pt_objects pts0 @ [PropertyType_init ''bool'']"
    and p4: "PropertyType_call ''bool'' (PropertyType_calls [''int32''] pts1)
              = (b, PropertyType_calls [''int32''] pts1)"
    and p5: "pt_objects (PropertyType_calls [''int32''] pts1) ! b = pt_objects pts1 ! b"
    using T f2(1) pts_coherent_empty by blast
  have P: "\<exists>pts1. PropertyType_call ''bool'' pts0 = (0, pts1)
         \<and> pt_objects pts1 = [PropertyType_init ''bool'']
         \<and> PropertyType_call ''bool'' (PropertyType_calls [''int32''] pts1)
              = (0, PropertyType_calls [''int32''] pts1)
         \<and> pt_objects (PropertyType_calls [''int32''] pts1) ! 0 = PropertyType_init ''bool''"
    apply (rule exI[of _ pts1])
    using p1 p3 p4 p5 f2(2) by simp
  obtain c props1 where q1: "NodeCacheProperty_call demo_prop 7 props0 = (c, props1)"
    and q3: "c = length (prop_objects props0)
                \<and> prop_objects props1 = prop_objects props0 @ [NodeCacheProperty_init demo_prop 7]"
    and q4: "NodeCacheProperty_call (demo_prop\<lparr>des := ''other''\<rparr>) 7
              (NodeCacheProperty_calls [(demo_prop, 8)] props1)
              = (c, NodeCacheProperty_calls [(demo_prop, 8)] props1)"
    and q5: "prop_objects (NodeCacheProperty_calls [(demo_prop, 8)] props1) ! c = prop_objects props1 ! c"
    using T h f3(1) prop_coherent_empty by blast
  have Q: "\<exists>props1. NodeCacheProperty_call demo_prop 7 props0 = (0, props1)
         \<and> prop_objects props1 = [NodeCacheProperty_init demo_prop 7]
         \<and> NodeCacheProperty_call (demo_prop\<lparr>des := ''other''\<rparr>) 7
              (NodeCacheProperty_calls [(demo_prop, 8)] props1)
              = (0, NodeCacheProperty_calls [(demo_prop, 8)] props1)
         \<and> prop_objects (NodeCacheProperty_calls [(demo_prop, 8)] props1) ! 0
              = NodeCacheProperty_init demo_prop 7"
    apply (rule exI[of _ props1])
    using q1 q3 q4 q5 f3(2) by simp
  show ?thesis
    using g f1(1) nc_coherent_empty N f2(1) pts_coherent_empty P h f3(1) prop_coherent_empty Q
    by blast
qed

section \<open>Properties of the guard of the NodeCache factory\<close>

lemma NodeCache_call_raises_iff:
  "is_NodeCacheError (fst (NodeCache_call unreal nt st))
     \<longleftrightarrow> (nt = None \<or> (\<exists>n. nt = Some n \<and> not_getattr unreal n))"
proof (cases nt)
  case None
  then show ?thesis by (simp add: NodeCache_call_def is_NodeCacheError_def)
next
  case (Some n)
  show ?thesis
  proof (cases "not_getattr unreal n")
    case True
    then show ?thesis using Some by (simp add: NodeCache_call_def is_NodeCacheError_def)
  next
    case False
    then obtain obj where "unreal n = Some obj" by (auto simp: not_getattr_def split: option.splits)
    then show ?thesis using Some False
      by (simp add: NodeCache_call_def is_NodeCacheError_def Let_def split: option.splits)
  qed
qed

lemma NodeCache_call_cache_cases:
  "snd (NodeCache_call unreal nt st) = st
   \<or> (\<exists>n a. nt = Some n \<and> \<not> not_getattr unreal n \<and> fst (NodeCache_call unreal nt st) = Inr a
        \<and> nc_CACHE_DATA (snd (NodeCache_call unreal nt st)) = (nc_CACHE_DATA st)(n \<mapsto> a))"
proof (cases nt)
  case None
  then show ?thesis by (simp add: NodeCache_call_def)
next
  case (Some n)
  show ?thesis
  proof (cases "not_getattr unreal n")
    case True
    then show ?thesis using Some by (simp add: NodeCache_call_def)
  next
    case False
    show ?thesis
    proof (cases "nc_CACHE_DATA st n")
      case (Some a)
      then show ?thesis using \<open>nt = Some n\<close> False by (simp add: NodeCache_call_def)
    next
      case None
      show ?thesis
      proof (cases "unreal n")
        case None
        then show ?thesis using \<open>nt = Some n\<close> False \<open>nc_CACHE_DATA st n = None\<close>
          by (simp add: NodeCache_call_def)
      next
        case (Some obj)
        then show ?thesis using \<open>nt = Some n\<close> False \<open>nc_CACHE_DATA st n = None\<close>
          by (simp add: NodeCache_call_def Let_def)
      qed
    qed
  qed
qed

lemma NodeCache_call_raise_unchanged:
  "is_raise (fst (NodeCache_call unreal nt st)) \<Longrightarrow> snd (NodeCache_call unreal nt st) = st"
  using NodeCache_call_cache_cases[of unreal nt st] by (auto simp: is_raise_def)

lemma NodeCache_call_keys_pass:
  assumes "cache_keys_pass unreal st"
  shows "cache_keys_pass unreal (snd (NodeCache_call unreal nt st))"
  using NodeCache_call_cache_cases[of unreal nt st] assms
  by (auto simp: cache_keys_pass_def split: if_splits)

lemma NodeCache_calls_keys_pass:
  "cache_keys_pass unreal st \<Longrightarrow> cache_keys_pass unreal (NodeCache_calls unreal ks st)"
  unfolding NodeCache_calls_def
  by (induction ks arbitrary: st) (simp_all add: NodeCache_call_keys_pass)

lemma is_NodeCacheError_is_raise: "is_NodeCacheError r \<Longrightarrow> is_raise r"
  by (auto simp: is_NodeCacheError_def is_raise_def split: sum.splits error.splits)

text \<open>
  C9, as the code has it. \<open>NodeCache_call\<close> raises \<^verbatim>\<open>NodeCacheError\<close> exactly when
  the node type is \<^verbatim>\<open>None\<close> or \<^verbatim>\<open>getattr(unreal, node_type, None)\<close> is falsy, that
  is when the host module has no attribute of that name or has one whose truth value is
  false. A call that raises leaves the cache as it was, and after any run of calls from
  the empty cache every key of the cache passes the guard.
\<close>

theorem NodeCache_call_guard:
  "(is_NodeCacheError (fst (NodeCache_call unreal nt st))
      \<longleftrightarrow> (nt = None \<or> (\<exists>n. nt = Some n \<and> not_getattr unreal n)))
   \<and> (is_raise (fst (NodeCache_call unreal nt st)) \<longrightarrow> snd (NodeCache_call unreal nt st) = st)
   \<and> cache_keys_pass unreal (NodeCache_calls unreal ks ncs0)"
proof -
  have "cache_keys_pass unreal ncs0" by (simp add: cache_keys_pass_def ncs0_def)
  then have "cache_keys_pass unreal (NodeCache_calls unreal ks ncs0)"
    by (rule NodeCache_calls_keys_pass)
  then show ?thesis
    using NodeCache_call_raises_iff[of unreal nt st] NodeCache_call_raise_unchanged[of unreal nt st]
    by simp
qed

theorem NodeCache_call_guard_witness:
  "not_getattr demo_unreal ''Nope''
   \<and> is_NodeCacheError (fst (NodeCache_call demo_unreal (Some ''Nope'') ncs0))
   \<and> is_raise (fst (NodeCache_call demo_unreal (Some ''Nope'') ncs0))
   \<and> snd (NodeCache_call demo_unreal (Some ''Nope'') ncs0) = ncs0
   \<and> cache_keys_pass demo_unreal (NodeCache_calls demo_unreal [Some ''Actor'', Some ''Nope''] ncs0)"
proof -
  have e: "is_NodeCacheError (fst (NodeCache_call demo_unreal (Some ''Nope'') ncs0))"
    using demo_unreal_Nope
      NodeCache_call_guard [of demo_unreal "Some ''Nope''" ncs0 "[Some ''Actor'', Some ''Nope'']"]
    by blast
  show ?thesis
    using demo_unreal_Nope e is_NodeCacheError_is_raise [OF e]
      NodeCache_call_guard [of demo_unreal "Some ''Nope''" ncs0 "[Some ''Actor'', Some ''Nope'']"]
    by blast
qed

text \<open>
  The module attribute \<^verbatim>\<open>__package__\<close> exists and is the empty string; the factory
  raises \<^verbatim>\<open>NodeCacheError\<close> for it all the same.
\<close>

theorem NodeCache_call_falsy_attribute:
  "demo_unreal ''__package__'' = Some empty_str_attr
   \<and> fst (NodeCache_call demo_unreal (Some ''__package__'') ncs0)
       = Inl (NodeCacheError ''node_type is missing...'')"
  by (simp add: NodeCache_call_def not_getattr_def demo_unreal_package empty_str_attr_def)

section \<open>Properties of the accessors of NodeCache\<close>

lemma demo_loop:
  "class_properties_loop demo_re 0 (cls_dir demo_cls) [] False pts0
     = (None, [demo_prop\<lparr>category := CLASS\<rparr>], True,
        \<lparr>pt_CACHE_DATA = (\<lambda>k. None)(''bool'' \<mapsto> 0), pt_objects = [PropertyType_init ''bool'']\<rparr>)"
  by (simp add: demo_cls_def demo_re_def find_groups_def NodeCacheClassProperty_init_def
        has_keys_def only_keys_def kw_def NodeCachePropertyBase_init_def PropertyType_call_def
        pts0_def demo_prop_def Let_def)

lemma demo_class_properties:
  "class_properties demo_re demo_cache pts0
     = (Inr (Some [demo_prop\<lparr>category := CLASS\<rparr>]),
        demo_cache\<lparr>priv_class_properties := Some [demo_prop\<lparr>category := CLASS\<rparr>]\<rparr>,
        \<lparr>pt_CACHE_DATA = (\<lambda>k. None)(''bool'' \<mapsto> 0), pt_objects = [PropertyType_init ''bool'']\<rparr>)"
proof -
  have "priv_class_properties demo_cache = None" "self_id demo_cache = 0"
    "priv_node_cls demo_cache = demo_cls"
    by (simp_all add: demo_cache_def NodeCache_init_def)
  then show ?thesis using demo_loop by (simp add: class_properties_def)
qed

lemma demo_lookup:
  "fst (property_by_name demo_re demo_cache ''hidden'' CLASS pts0) = Inl TypeError"
proof -
  have "priv_class_property_names demo_cache = None"
    by (simp add: demo_cache_def NodeCache_init_def)
  then show ?thesis
    by (simp add: property_by_name_def demo_class_properties lookup_in_pool_def)
qed

lemma demo_names_then_lookup:
  "fst (property_by_name demo_re
          (fst (snd (class_property_names demo_re demo_cache pts0))) ''hidden'' CLASS
          (snd (snd (class_property_names demo_re demo_cache pts0)))) = Inl TypeError"
proof -
  have n: "priv_class_property_names demo_cache = None"
    by (simp add: demo_cache_def NodeCache_init_def)
  have "class_property_names demo_re demo_cache pts0
     = (Inr (Some [''hidden'']),
        demo_cache\<lparr>priv_class_properties := Some [demo_prop\<lparr>category := CLASS\<rparr>],
                    priv_class_property_names := Some [''hidden'']\<rparr>,
        \<lparr>pt_CACHE_DATA = (\<lambda>k. None)(''bool'' \<mapsto> 0), pt_objects = [PropertyType_init ''bool'']\<rparr>)"
    using n by (simp add: class_property_names_def demo_class_properties demo_prop_def)
  then show ?thesis
    by (simp add: property_by_name_def class_properties_def lookup_in_pool_def)
qed

lemma class_properties_keeps_names:
  "priv_class_property_names (fst (snd (class_properties re c pts))) = priv_class_property_names c"
  by (auto simp: class_properties_def Let_def split: prod.splits option.splits)

lemma class_properties_cached_None:
  "priv_class_properties c \<noteq> None \<Longrightarrow> fst (class_properties re c pts) = Inr None"
  by (auto simp: class_properties_def)

lemma lookup_in_pool_None: "lookup_in_pool nm None names \<noteq> Inr (Some d)"
  by (auto simp: lookup_in_pool_def Let_def split: option.splits)

lemma lookup_in_pool_no_names: "lookup_in_pool nm pool None = Inl TypeError"
  by (simp add: lookup_in_pool_def)

text \<open>
  C1 asks that a second read of an accessor returns what the first read returned.
  For \<open>class_properties\<close> the code does the opposite: whenever a read returns a list
  of descriptors, the next read returns \<^verbatim>\<open>None\<close>, because the \<^verbatim>\<open>return\<close> statement
  sits inside the \<^verbatim>\<open>if self._class_properties is None:\<close> block.
\<close>

theorem class_properties_second_read:
  assumes "fst (class_properties re c pts) = Inr (Some ds)"
  shows "fst (class_properties re (fst (snd (class_properties re c pts)))
                (snd (snd (class_properties re c pts)))) = Inr None"
proof (cases "priv_class_properties c")
  case (Some xs)
  then show ?thesis using assms by (simp add: class_properties_def)
next
  case None
  obtain err result assigned pts' where
    l: "class_properties_loop re (self_id c) (cls_dir (priv_node_cls c)) [] False pts
          = (err, result, assigned, pts')"
    by (metis prod_cases4)
  from assms None l have "err = None" "assigned"
    by (auto simp: class_properties_def Let_def split: option.splits if_splits)
  then have "priv_class_properties (fst (snd (class_properties re c pts))) = Some result"
    using None l by (simp add: class_properties_def Let_def)
  then show ?thesis by (simp add: class_properties_def)
qed

theorem class_properties_second_read_witness:
  "fst (class_properties demo_re demo_cache pts0) = Inr (Some [demo_prop\<lparr>category := CLASS\<rparr>])
   \<and> fst (class_properties demo_re (fst (snd (class_properties demo_re demo_cache pts0)))
            (snd (snd (class_properties demo_re demo_cache pts0)))) = Inr None"
proof -
  have h: "fst (class_properties demo_re demo_cache pts0) = Inr (Some [demo_prop\<lparr>category := CLASS\<rparr>])"
    by (simp add: demo_class_properties)
  show ?thesis using h class_properties_second_read [OF h] by simp
qed

text \<open>
  C5 asks that \<open>property_by_name\<close> returns the descriptor of the given name in both
  categories. In the category \<^verbatim>\<open>CLASS\<close> the code never returns a descriptor: the
  names are read from the attribute \<^verbatim>\<open>_class_property_names\<close>, which is \<^verbatim>\<open>None\<close>
  until the property \<^verbatim>\<open>class_property_names\<close> has been read, and once it has been
  read \<open>class_properties\<close> returns \<^verbatim>\<open>None\<close> as the pool. The hypothesis holds of
  every instance the factory creates and is kept by every accessor: the names are set
  only after \<open>class_properties\<close> has returned a list, which it has then stored.
\<close>

theorem class_lookup_never_succeeds:
  assumes "priv_class_property_names c = None \<or> priv_class_properties c \<noteq> None"
  shows "fst (property_by_name re c nm CLASS pts) \<noteq> Inr (Some d)"
proof -
  obtain r c1 pts1 where cp: "class_properties re c pts = (r, c1, pts1)"
    by (cases "class_properties re c pts")
  have names: "priv_class_property_names c1 = priv_class_property_names c"
    using class_properties_keeps_names[of re c pts] cp by simp
  show ?thesis
  proof (cases r)
    case (Inl e)
    then show ?thesis using cp by (simp add: property_by_name_def)
  next
    case (Inr pool)
    have "lookup_in_pool nm pool (priv_class_property_names c1) \<noteq> Inr (Some d)"
    proof (cases "priv_class_property_names c")
      case None
      then show ?thesis using names by (simp add: lookup_in_pool_no_names)
    next
      case (Some ns)
      then have "priv_class_properties c \<noteq> None" using assms by simp
      then have "pool = None" using class_properties_cached_None[of c re pts] cp Inr by simp
      then show ?thesis by (simp add: lookup_in_pool_None)
    qed
    then show ?thesis using cp Inr by (simp add: property_by_name_def)
  qed
qed

theorem class_lookup_never_succeeds_witness:
  "(priv_class_property_names demo_cache = None \<or> priv_class_properties demo_cache \<noteq> None)
   \<and> fst (property_by_name demo_re demo_cache ''hidden'' CLASS pts0) = Inl TypeError
   \<and> fst (property_by_name demo_re demo_cache ''hidden'' CLASS pts0)
        \<noteq> Inr (Some (demo_prop\<lparr>category := CLASS\<rparr>))"
proof -
  have h: "priv_class_property_names demo_cache = None \<or> priv_class_properties demo_cache \<noteq> None"
    by (simp add: demo_cache_def NodeCache_init_def)
  show ?thesis
    using h demo_lookup
      class_lookup_never_succeeds [OF h, of demo_re "''hidden''" pts0 "demo_prop\<lparr>category := CLASS\<rparr>"]
    by simp
qed

section \<open>The editor properties and the docstring\<close>

lemma describes_mono: "describes pts par g x \<Longrightarrow> pts_extends pts pts' \<Longrightarrow> describes pts' par g x"
  by (auto simp: describes_def pts_extends_def nth_append)



















lemma scraped_mono: "scraped c d pts \<Longrightarrow> pts_extends pts pts' \<Longrightarrow> scraped c d pts'"
  by (auto simp: scraped_def list_all2_conv_all_nth describes_mono split: option.splits)






section \<open>Attribute access on a NodeBase wrapper\<close>

lemma NodeBase_getattr_recursion:
  "own_attrs self item = None \<Longrightarrow> NodeBase_getattr frames self item = Inl RecursionError"
  by (induction frames) simp_all

text \<open>
  C3 asks that access to an attribute the wrapper does not define is delegated to the
  wrapped node. The code never gets there: for every recursion limit, access to such
  an attribute raises \<^verbatim>\<open>RecursionError\<close>, whether or not the node defines the
  attribute, because \<^verbatim>\<open>__getattr__\<close> looks the attribute up on the wrapper again
  before it looks at the node.
\<close>

theorem getattr_never_delegates:
  assumes "own_attrs self item = None"
  shows "NodeBase_attribute frames self item = Inl RecursionError"
  using assms by (simp add: NodeBase_attribute_def NodeBase_getattr_recursion)

theorem getattr_never_delegates_witness:
  "own_attrs demo_wrapper ''get_name'' = None
   \<and> node_attrs demo_wrapper ''get_name'' = Some 3
   \<and> NodeBase_attribute 1000 demo_wrapper ''get_name'' = Inl RecursionError"
proof -
  have h: "own_attrs demo_wrapper ''get_name'' = None" by (simp add: demo_wrapper_def)
  have n: "node_attrs demo_wrapper ''get_name'' = Some 3" by (simp add: demo_wrapper_def)
  show ?thesis using h n getattr_never_delegates [OF h, of 1000] by simp
qed

section \<open>Aligning the keys of a camera\<close>

lemma spacing_shift: "spacing (map (\<lambda>x. x + d) xs) = spacing xs"
  by (simp add: spacing_def map_tl[symmetric] zip_map_map split_def)

lemma get_keys_empty_iff: "get_keys h ch = [] \<longleftrightarrow> channel_keys h ch = []"
  by (simp add: get_keys_def)

lemma dict_set_keys: "set (map fst (dict_set d k v)) = insert k (set (map fst d))"
  by (induction d k v rule: dict_set.induct) auto

lemma dict_set_distinct: "distinct (map fst d) \<Longrightarrow> distinct (map fst (dict_set d k v))"
proof (induction d k v rule: dict_set.induct)
  case (1 k v)
  then show ?case by simp
next
  case (2 k' v' d k v)
  then show ?case using dict_set_keys[of d k v] by (auto simp del: set_map)
qed

lemma dict_set_entries: "set (dict_set d k v) \<subseteq> insert (k, v) (set d)"
  by (induction d k v rule: dict_set.induct) auto

lemma entries_ok_dict_set:
  "entries_ok h data \<Longrightarrow> get_keys h ch \<noteq> [] \<Longrightarrow> entries_ok h (dict_set data ch (get_keys h ch))"
  using dict_set_entries[of data ch "get_keys h ch"] by (auto simp: entries_ok_def)

lemma setup_loop_data:
  assumes "distinct (map fst data)" "entries_ok h data"
  shows "distinct (map fst (fst (setup_loop h chs data s e)))
       \<and> entries_ok h (fst (setup_loop h chs data s e))
       \<and> set (map fst (fst (setup_loop h chs data s e)))
           = set (map fst data) \<union> {ch \<in> set chs. channel_keys h ch \<noteq> []}"
  using assms
proof (induction chs arbitrary: data s e)
  case Nil
  then show ?case by simp
next
  case (Cons ch chs)
  show ?case
  proof (cases "channel_keys h ch = []")
    case True
    then have "setup_loop h (ch # chs) data s e = setup_loop h chs data s e"
      by (simp add: get_keys_empty_iff Let_def)
    then show ?thesis using Cons.IH[OF Cons.prems] True by auto
  next
    case False
    then have ne: "get_keys h ch \<noteq> []" by (simp add: get_keys_empty_iff)
    obtain s' e' where
      eq: "setup_loop h (ch # chs) data s e = setup_loop h chs (dict_set data ch (get_keys h ch)) s' e'"
      using ne by (simp add: Let_def)
    have d: "distinct (map fst (dict_set data ch (get_keys h ch)))"
      by (rule dict_set_distinct[OF Cons.prems(1)])
    have o: "entries_ok h (dict_set data ch (get_keys h ch))"
      by (rule entries_ok_dict_set[OF Cons.prems(2) ne])
    show ?thesis
      using Cons.IH[OF d o, of s' e'] False dict_set_keys[of data ch "get_keys h ch"]
      unfolding eq by auto
  qed
qed

lemma setup_loop_start:
  assumes "\<forall>ch \<in> set chs. channel_keys h ch \<noteq> [] \<longrightarrow> hd (channel_keys h ch) = v"
    and "st = None \<or> st = Some v"
  shows "fst (snd (setup_loop h chs data st e))
           = (if list_ex (\<lambda>ch. channel_keys h ch \<noteq> []) chs then Some v else st)"
  using assms
proof (induction chs arbitrary: data st e)
  case Nil
  then show ?case by simp
next
  case (Cons ch chs)
  show ?case
  proof (cases "channel_keys h ch = []")
    case True
    then have "setup_loop h (ch # chs) data st e = setup_loop h chs data st e"
      by (simp add: get_keys_empty_iff Let_def)
    then show ?thesis using Cons.IH[of st data e] Cons.prems True by simp
  next
    case False
    then have ne: "get_keys h ch \<noteq> []" by (simp add: get_keys_empty_iff)
    have hdv: "hd (channel_keys h ch) = v" using Cons.prems(1) False by simp
    obtain e' where
      eq: "setup_loop h (ch # chs) data st e = setup_loop h chs (dict_set data ch (get_keys h ch)) (Some v) e'"
      using ne hdv Cons.prems(2) by (auto simp: Let_def)
    show ?thesis unfolding eq using Cons.IH[of "Some v" "dict_set data ch (get_keys h ch)" e'] Cons.prems(1) False
      by simp
  qed
qed

lemma setup_loop_start_Some:
  assumes "list_ex (\<lambda>ch. channel_keys h ch \<noteq> []) chs \<or> st \<noteq> None"
  shows "fst (snd (setup_loop h chs data st e)) \<noteq> None"
  using assms
proof (induction chs arbitrary: data st e)
  case Nil
  then show ?case by simp
next
  case (Cons ch chs)
  show ?case
  proof (cases "channel_keys h ch = []")
    case True
    then have "setup_loop h (ch # chs) data st e = setup_loop h chs data st e"
      by (simp add: get_keys_empty_iff Let_def)
    then show ?thesis using Cons.IH[of st data e] Cons.prems True by simp
  next
    case False
    then have ne: "get_keys h ch \<noteq> []" by (simp add: get_keys_empty_iff)
    have "\<exists>s'. (case st of None \<Rightarrow> Some (hd (channel_keys h ch))
                 | Some s \<Rightarrow> if s > hd (channel_keys h ch) then Some (hd (channel_keys h ch)) else Some s)
              = Some s'"
      by (cases st) auto
    then obtain s' where s': "(case st of None \<Rightarrow> Some (hd (channel_keys h ch))
                 | Some s \<Rightarrow> if s > hd (channel_keys h ch) then Some (hd (channel_keys h ch)) else Some s)
              = Some s'"
      by blast
    obtain e' where
      eq: "setup_loop h (ch # chs) data st e = setup_loop h chs (dict_set data ch (get_keys h ch)) (Some s') e'"
      using ne s' by (simp add: Let_def)
    show ?thesis unfolding eq using Cons.IH[of "Some s'"] by simp
  qed
qed

lemma host_keys_simps [simp]:
  "channel_keys (host_keys h f) = f"
  "host_keys (host_keys h f) g = host_keys h g"
  "host_keys h (channel_keys h) = h"
  "child_possessables (host_keys h f) = child_possessables h"
  "proxy_tracks (host_keys h f) = proxy_tracks h"
  "track_sections (host_keys h f) = track_sections h"
  "section_channels (host_keys h f) = section_channels h"
  by (simp_all add: host_keys_def)

lemma set_time_host:
  "w_host (set_time k v w)
     = host_keys (w_host w) ((channel_keys (w_host w))(fst k := (channel_keys (w_host w) (fst k))[snd k := v]))"
  and set_time_calls: "w_calls (set_time k v w) = w_calls w @ [SetTime (fst k) (snd k) v]"
  by (simp_all add: set_time_def log_call_def host_keys_def)

lemma shift_keys_suffix:
  assumes "i \<le> length (channel_keys (w_host w) ch)"
  shows "\<exists>w'. shift_keys so off (map (Pair ch) [i..<length (channel_keys (w_host w) ch)]) w = (Inr (), w')
     \<and> w_host w' = host_keys (w_host w) ((channel_keys (w_host w))
          (ch := take i (channel_keys (w_host w) ch)
                  @ map (\<lambda>x. x + so + off) (drop i (channel_keys (w_host w) ch))))"
  using assms
proof (induction "length (channel_keys (w_host w) ch) - i" arbitrary: i w)
  case 0
  then have "i = length (channel_keys (w_host w) ch)" by simp
  then show ?case by simp
next
  case (Suc m)
  let ?ks = "channel_keys (w_host w) ch"
  let ?n = "length ?ks"
  let ?v = "?ks ! i + so + off"
  let ?w1 = "set_time (ch, i) ?v w"
  from Suc.hyps(2) have lt: "i < ?n" by simp
  have upt: "[i..<?n] = i # [Suc i..<?n]" using lt by (simp add: upt_conv_Cons)
  have gt: "get_time (w_host w) (ch, i) = Some (?ks ! i)" using lt by (simp add: get_time_def)
  have ks1: "channel_keys (w_host ?w1) ch = ?ks[i := ?v]"
    by (simp add: set_time_host)
  have len1: "length (channel_keys (w_host ?w1) ch) = ?n" by (simp add: ks1)
  have m: "m = length (channel_keys (w_host ?w1) ch) - Suc i" using Suc.hyps(2) len1 by simp
  have le: "Suc i \<le> length (channel_keys (w_host ?w1) ch)" using lt len1 by simp
  from Suc.hyps(1)[OF m le] obtain w' where
    r: "shift_keys so off (map (Pair ch) [Suc i..<length (channel_keys (w_host ?w1) ch)]) ?w1 = (Inr (), w')"
    and h: "w_host w' = host_keys (w_host ?w1) ((channel_keys (w_host ?w1))
          (ch := take (Suc i) (channel_keys (w_host ?w1) ch)
                  @ map (\<lambda>x. x + so + off) (drop (Suc i) (channel_keys (w_host ?w1) ch))))"
    by blast
  have step: "shift_keys so off (map (Pair ch) [i..<?n]) w = (Inr (), w')"
    using r gt unfolding len1 upt by simp
  have lists: "take (Suc i) (?ks[i := ?v]) @ map (\<lambda>x. x + so + off) (drop (Suc i) (?ks[i := ?v]))
      = take i ?ks @ map (\<lambda>x. x + so + off) (drop i ?ks)"
  proof -
    have "take (Suc i) (?ks[i := ?v]) = take i ?ks @ [?v]"
      using lt by (simp add: take_Suc_conv_app_nth)
    moreover have "drop (Suc i) (?ks[i := ?v]) = drop (Suc i) ?ks" by simp
    moreover have "drop i ?ks = ?ks ! i # drop (Suc i) ?ks"
      using lt by (simp add: Cons_nth_drop_Suc)
    ultimately show ?thesis by simp
  qed
  have "w_host w' = host_keys (w_host w) ((channel_keys (w_host w))
          (ch := take i ?ks @ map (\<lambda>x. x + so + off) (drop i ?ks)))"
    unfolding h ks1 lists by (simp add: set_time_host)
  with step show ?case by blast
qed

lemma shift_keys_channel:
  assumes "keys = get_keys (w_host w) ch"
  shows "\<exists>w'. shift_keys so off keys w = (Inr (), w')
     \<and> w_host w' = host_keys (w_host w) ((channel_keys (w_host w))
          (ch := map (\<lambda>x. x + so + off) (channel_keys (w_host w) ch)))"
  using shift_keys_suffix[of 0 w ch so off] assms by (simp add: get_keys_def)

lemma get_keys_Cons:
  assumes "channel_keys h ch \<noteq> []"
  shows "\<exists>ks. get_keys h ch = (ch, 0) # ks"
proof -
  have "0 < length (channel_keys h ch)" using assms by simp
  then have "[0..<length (channel_keys h ch)] = 0 # [Suc 0..<length (channel_keys h ch)]"
    by (simp add: upt_conv_Cons)
  then show ?thesis by (simp add: get_keys_def)
qed

lemma shift_channels_data:
  assumes "distinct (map fst data)" "entries_ok (w_host w) data"
  shows "\<exists>w'. shift_channels s0 off data w = (Inr (), w')
     \<and> w_host w' = host_keys (w_host w)
          (\<lambda>ch. if ch \<in> fst ` set data
                then map (\<lambda>x. x + (s0 - hd (channel_keys (w_host w) ch)) + off) (channel_keys (w_host w) ch)
                else channel_keys (w_host w) ch)"
  using assms
proof (induction data arbitrary: w)
  case Nil
  then show ?case by simp
next
  case (Cons p rest)
  obtain ch keys where p: "p = (ch, keys)" by (cases p)
  let ?h = "w_host w"
  let ?ks = "channel_keys ?h ch"
  from Cons.prems(2) p have keys: "keys = get_keys ?h ch" and ne: "keys \<noteq> []"
    by (auto simp: entries_ok_def)
  have ksne: "?ks \<noteq> []" using keys ne by (simp add: get_keys_empty_iff)
  obtain kt where kc: "keys = (ch, 0) # kt" using get_keys_Cons[OF ksne] keys by blast
  have gt: "get_time ?h (ch, 0) = Some (hd ?ks)"
    using ksne by (simp add: get_time_def hd_conv_nth)
  obtain w1 where
    r1: "shift_keys (s0 - hd ?ks) off keys w = (Inr (), w1)"
    and h1: "w_host w1 = host_keys ?h ((channel_keys ?h)(ch := map (\<lambda>x. x + (s0 - hd ?ks) + off) ?ks))"
    using shift_keys_channel[OF keys, of "s0 - hd ?ks" off] by blast
  have notin: "ch \<notin> fst ` set rest" using Cons.prems(1) p by auto
  have d: "distinct (map fst rest)" using Cons.prems(1) by simp
  have same: "\<And>c. c \<noteq> ch \<Longrightarrow> channel_keys (w_host w1) c = channel_keys ?h c"
    by (simp add: h1)
  have o: "entries_ok (w_host w1) rest"
    unfolding entries_ok_def
  proof (clarify)
    fix c ks' assume m: "(c, ks') \<in> set rest"
    then have "c \<noteq> ch" using notin by force
    then have "get_keys (w_host w1) c = get_keys ?h c" by (simp add: get_keys_def same)
    moreover have "ks' = get_keys ?h c \<and> ks' \<noteq> []"
      using Cons.prems(2) m by (auto simp: entries_ok_def)
    ultimately show "ks' = get_keys (w_host w1) c \<and> ks' \<noteq> []" by metis
  qed
  from Cons.IH[OF d o] obtain w' where
    r2: "shift_channels s0 off rest w1 = (Inr (), w')"
    and h2: "w_host w' = host_keys (w_host w1)
          (\<lambda>c. if c \<in> fst ` set rest
                then map (\<lambda>x. x + (s0 - hd (channel_keys (w_host w1) c)) + off) (channel_keys (w_host w1) c)
                else channel_keys (w_host w1) c)"
    by blast
  have run: "shift_channels s0 off (p # rest) w = (Inr (), w')"
    using r1 r2 gt unfolding p kc by simp
  have "(\<lambda>c. if c \<in> fst ` set rest
                then map (\<lambda>x. x + (s0 - hd (channel_keys (w_host w1) c)) + off) (channel_keys (w_host w1) c)
                else channel_keys (w_host w1) c)
      = (\<lambda>c. if c \<in> fst ` set (p # rest)
                then map (\<lambda>x. x + (s0 - hd (channel_keys ?h c)) + off) (channel_keys ?h c)
                else channel_keys ?h c)"
  proof (rule ext)
    fix c
    show "(if c \<in> fst ` set rest
                then map (\<lambda>x. x + (s0 - hd (channel_keys (w_host w1) c)) + off) (channel_keys (w_host w1) c)
                else channel_keys (w_host w1) c)
        = (if c \<in> fst ` set (p # rest)
                then map (\<lambda>x. x + (s0 - hd (channel_keys ?h c)) + off) (channel_keys ?h c)
                else channel_keys ?h c)"
    proof (cases "c = ch")
      case True
      then show ?thesis using notin p by (simp add: h1)
    next
      case False
      then show ?thesis using same[OF False] p by simp
    qed
  qed
  then have "w_host w' = host_keys ?h
          (\<lambda>c. if c \<in> fst ` set (p # rest)
                then map (\<lambda>x. x + (s0 - hd (channel_keys ?h c)) + off) (channel_keys ?h c)
                else channel_keys ?h c)"
    unfolding h2 by (simp add: h1)
  with run show ?case by blast
qed

lemma camera_channels_host_keys [simp]:
  "camera_channels (host_keys h f) p = camera_channels h p"
  by (simp add: camera_channels_def)

lemma setup_camera_data_fields:
  "priv_proxy (setup_camera_data c h) = priv_proxy c"
  "priv_key_frames_data (setup_camera_data c h)
     = Some (fst (setup_loop h (camera_channels h (priv_proxy c)) [] None None))"
  "priv_start (setup_camera_data c h)
     = fst (snd (setup_loop h (camera_channels h (priv_proxy c)) [] None None))"
  by (simp_all add: setup_camera_data_def split: prod.splits)

lemma start_read:
  assumes "keys_current c h" "has_keyframe c h"
  shows "\<exists>s0 c1. SequenceCamera_start c h = (Some s0, c1)
          \<and> priv_proxy c1 = priv_proxy c
          \<and> priv_key_frames_data c1
               = Some (fst (setup_loop h (camera_channels h (priv_proxy c)) [] None None))"
proof (cases "priv_start c")
  case None
  have "priv_start (setup_camera_data c h) \<noteq> None"
    unfolding setup_camera_data_fields
    using setup_loop_start_Some[of h "camera_channels h (priv_proxy c)" None "[]" None] assms(2)
    by (simp add: has_keyframe_def)
  then obtain s0 where "priv_start (setup_camera_data c h) = Some s0" by blast
  then show ?thesis using None
    by (simp add: SequenceCamera_start_def setup_camera_data_fields)
next
  case (Some s0)
  then have "priv_key_frames_data c
      = Some (fst (setup_loop h (camera_channels h (priv_proxy c)) [] None None))"
    using assms(1) by (simp add: keys_current_def setup_camera_data_fields)
  then show ?thesis using Some by (simp add: SequenceCamera_start_def)
qed

lemma keys_current_init: "keys_current (SequenceCamera_init h p) h'"
  by (simp add: keys_current_def SequenceCamera_init_def)

lemma keys_current_setup: "keys_current (setup_camera_data c h) h"
  by (simp add: keys_current_def setup_camera_data_fields)

lemma demo_camera_channels: "camera_channels demo_host 3 = [30, 31, 32]"
  by (simp add: camera_channels_def demo_host_def)

text \<open>
  C2, as the code has it. \<open>set_start_frame\<close> moves the keys the camera has cached, and
  scans the host only when nothing is cached. Let the cached keys of the camera be
  current (nothing cached yet, as for every camera \<open>SequenceCamera_init\<close> builds, or the
  dict \<open>setup_camera_data\<close> builds from the host, as after every \<open>set_start_frame\<close>), and
  let some channel of its tracks have a key. Then \<open>set_start_frame s\<close> returns, afterwards
  the first key of every channel that has keys lies at frame \<open>s\<close>, every such channel has
  as many keys as before at the same distances, and the property \<^verbatim>\<open>start\<close> of the
  camera is \<open>s\<close>.
\<close>

theorem set_start_frame_aligns:
  assumes kc: "keys_current c (w_host w)" and hk: "has_keyframe c (w_host w)"
  shows "\<exists>c' w'. set_start_frame s c w = (Inr (), c', w')
     \<and> (\<forall>ch \<in> set (camera_channels (w_host w) (priv_proxy c)).
           channel_keys (w_host w) ch \<noteq> [] \<longrightarrow>
             hd (channel_keys (w_host w') ch) = s
           \<and> length (channel_keys (w_host w') ch) = length (channel_keys (w_host w) ch)
           \<and> spacing (channel_keys (w_host w') ch) = spacing (channel_keys (w_host w) ch))
     \<and> fst (SequenceCamera_start c' (w_host w')) = Some s"
proof -
  let ?h = "w_host w"
  let ?chans = "camera_channels ?h (priv_proxy c)"
  let ?D = "fst (setup_loop ?h ?chans [] None None)"
  obtain s0 c1 where st: "SequenceCamera_start c ?h = (Some s0, c1)"
    and px: "priv_proxy c1 = priv_proxy c" and kd: "priv_key_frames_data c1 = Some ?D"
    using start_read[OF kc hk] by blast
  have "entries_ok ?h []" by (simp add: entries_ok_def)
  then have D: "distinct (map fst ?D)" "entries_ok ?h ?D"
    "set (map fst ?D) = {ch \<in> set ?chans. channel_keys ?h ch \<noteq> []}"
    using setup_loop_data[of "[]" ?h ?chans None None] by simp_all
  let ?F = "\<lambda>ch. if ch \<in> fst ` set ?D
                then map (\<lambda>x. x + (s0 - hd (channel_keys ?h ch)) + (s - s0)) (channel_keys ?h ch)
                else channel_keys ?h ch"
  obtain w' where sh: "shift_channels s0 (s - s0) ?D w = (Inr (), w')"
    and h': "w_host w' = host_keys ?h ?F"
    using shift_channels_data[OF D(1,2), of s0 "s - s0"] by blast
  let ?c' = "setup_camera_data c1 (w_host w')"
  have run: "set_start_frame s c w = (Inr (), ?c', w')"
    using st kd sh by (simp add: set_start_frame_def Let_def)
  have inD: "\<And>ch. ch \<in> fst ` set ?D \<longleftrightarrow> ch \<in> set ?chans \<and> channel_keys ?h ch \<noteq> []"
    using D(3) by auto
  have new: "\<And>ch. ch \<in> set ?chans \<Longrightarrow> channel_keys ?h ch \<noteq> [] \<Longrightarrow>
      channel_keys (w_host w') ch = map (\<lambda>x. x + (s - hd (channel_keys ?h ch))) (channel_keys ?h ch)"
  proof -
    fix ch assume "ch \<in> set ?chans" "channel_keys ?h ch \<noteq> []"
    then have "ch \<in> fst ` set ?D" using inD by simp
    then have "channel_keys (w_host w') ch
        = map (\<lambda>x. x + (s0 - hd (channel_keys ?h ch)) + (s - s0)) (channel_keys ?h ch)"
      unfolding h' by simp
    also have "\<dots> = map (\<lambda>x. x + (s - hd (channel_keys ?h ch))) (channel_keys ?h ch)"
      by simp
    finally show "channel_keys (w_host w') ch
        = map (\<lambda>x. x + (s - hd (channel_keys ?h ch))) (channel_keys ?h ch)" .
  qed
  have old: "\<And>ch. ch \<in> set ?chans \<Longrightarrow> channel_keys ?h ch = [] \<Longrightarrow> channel_keys (w_host w') ch = []"
    unfolding h' using inD by simp
  have aligned: "\<forall>ch \<in> set ?chans. channel_keys ?h ch \<noteq> [] \<longrightarrow>
             hd (channel_keys (w_host w') ch) = s
           \<and> length (channel_keys (w_host w') ch) = length (channel_keys ?h ch)
           \<and> spacing (channel_keys (w_host w') ch) = spacing (channel_keys ?h ch)"
  proof (intro ballI impI)
    fix ch assume a: "ch \<in> set ?chans" "channel_keys ?h ch \<noteq> []"
    show "hd (channel_keys (w_host w') ch) = s
           \<and> length (channel_keys (w_host w') ch) = length (channel_keys ?h ch)
           \<and> spacing (channel_keys (w_host w') ch) = spacing (channel_keys ?h ch)"
      unfolding new[OF a] using a(2) by (simp add: hd_map spacing_shift)
  qed
  have chans': "camera_channels (w_host w') (priv_proxy c1) = ?chans"
    unfolding h' px by simp
  have all_s: "\<forall>ch \<in> set ?chans. channel_keys (w_host w') ch \<noteq> [] \<longrightarrow> hd (channel_keys (w_host w') ch) = s"
  proof (intro ballI impI)
    fix ch assume a: "ch \<in> set ?chans" "channel_keys (w_host w') ch \<noteq> []"
    then have "channel_keys ?h ch \<noteq> []" using old by blast
    then show "hd (channel_keys (w_host w') ch) = s" using aligned a(1) by blast
  qed
  have ex: "list_ex (\<lambda>ch. channel_keys (w_host w') ch \<noteq> []) ?chans"
  proof -
    obtain ch where ch: "ch \<in> set ?chans" "channel_keys ?h ch \<noteq> []"
      using hk by (auto simp: has_keyframe_def list_ex_iff)
    then have "channel_keys (w_host w') ch \<noteq> []" using new[OF ch] by simp
    then show ?thesis using ch(1) by (auto simp: list_ex_iff)
  qed
  have "priv_start ?c' = Some s"
    unfolding setup_camera_data_fields chans'
    using setup_loop_start[OF all_s, of None "[]" None] ex by simp
  then have "fst (SequenceCamera_start ?c' (w_host w')) = Some s"
    by (simp add: SequenceCamera_start_def)
  with run aligned show ?thesis by blast
qed

theorem set_start_frame_aligns_witness:
  "keys_current demo_camera (w_host demo_world)
   \<and> has_keyframe demo_camera (w_host demo_world)
   \<and> (\<exists>c' w'. set_start_frame 1001 demo_camera demo_world = (Inr (), c', w')
         \<and> hd (channel_keys (w_host w') 30) = 1001
         \<and> length (channel_keys (w_host w') 30) = 3
         \<and> spacing (channel_keys (w_host w') 30) = [3, 4]
         \<and> hd (channel_keys (w_host w') 32) = 1001
         \<and> fst (SequenceCamera_start c' (w_host w')) = Some 1001)"
proof -
  have h1: "keys_current demo_camera (w_host demo_world)"
    unfolding demo_camera_def by (rule keys_current_init)
  have px: "priv_proxy demo_camera = 3"
    by (simp add: demo_camera_def SequenceCamera_init_def)
  have hw: "w_host demo_world = demo_host" by (simp add: demo_world_def)
  have k30: "channel_keys demo_host 30 = [5, 8, 12]" and k32: "channel_keys demo_host 32 = [7, 9]"
    by (simp_all add: demo_host_def)
  have chans: "camera_channels demo_host (priv_proxy demo_camera) = [30, 31, 32]"
    unfolding px by (rule demo_camera_channels)
  have h2: "has_keyframe demo_camera (w_host demo_world)"
    unfolding has_keyframe_def hw chans by (simp add: k30)
  obtain c' w' where r: "set_start_frame 1001 demo_camera demo_world = (Inr (), c', w')"
    and a: "\<forall>ch \<in> set (camera_channels (w_host demo_world) (priv_proxy demo_camera)).
           channel_keys (w_host demo_world) ch \<noteq> [] \<longrightarrow>
             hd (channel_keys (w_host w') ch) = 1001
           \<and> length (channel_keys (w_host w') ch) = length (channel_keys (w_host demo_world) ch)
           \<and> spacing (channel_keys (w_host w') ch) = spacing (channel_keys (w_host demo_world) ch)"
    and s: "fst (SequenceCamera_start c' (w_host w')) = Some 1001"
    using set_start_frame_aligns [OF h1 h2, of 1001] by blast
  have "hd (channel_keys (w_host w') 30) = 1001 \<and> length (channel_keys (w_host w') 30) = 3
      \<and> spacing (channel_keys (w_host w') 30) = [3, 4]"
    using a unfolding hw chans by (simp add: k30 spacing_def)
  moreover have "hd (channel_keys (w_host w') 32) = 1001"
    using a unfolding hw chans by (simp add: k32)
  ultimately show ?thesis using h1 h2 r s by blast
qed

text \<open>
  C2 as stated fails for a camera whose cached keys are not current. The camera
  \<open>stale_camera\<close> was scanned when the channel 31 had no key; on the later host its
  tracks have keys, \<open>set_start_frame 1001\<close> returns, and yet the keys of the channel 31
  stay at the frames 2 and 4, and the property \<^verbatim>\<open>start\<close> of the camera is 2.
\<close>

theorem set_start_frame_stale_cache:
  "has_keyframe stale_camera (w_host later_world)
   \<and> camera_channels (w_host later_world) (priv_proxy stale_camera) = [30, 31, 32]
   \<and> fst (set_start_frame 1001 stale_camera later_world) = Inr ()
   \<and> channel_keys (w_host (snd (snd (set_start_frame 1001 stale_camera later_world)))) 31 = [2, 4]
   \<and> fst (SequenceCamera_start (fst (snd (set_start_frame 1001 stale_camera later_world)))
              (w_host (snd (snd (set_start_frame 1001 stale_camera later_world))))) = Some 2"
  by code_simp

section \<open>The order of the host calls of import_camera\<close>

lemma calls_void_call: "w_calls (void_call api e w) = w_calls w @ [e]"
  by (simp add: void_call_def)

lemma calls_log_call: "w_calls (log_call e h w) = w_calls w @ [e]"
  by (simp add: log_call_def)

lemma host_log_call: "w_host (log_call e h w) = h"
  by (simp add: log_call_def)

lemma calls_set_time: "w_calls (set_time k v w) = w_calls w @ [SetTime (fst k) (snd k) v]"
  by (simp add: set_time_def log_call_def)

lemma shift_keys_calls:
  "\<exists>evs. w_calls (snd (shift_keys so off ks w)) = w_calls w @ evs \<and> list_all (\<lambda>e. phase e = 4) evs"
proof (induction ks arbitrary: w)
  case Nil
  then show ?case by simp
next
  case (Cons k ks)
  show ?case
  proof (cases "get_time (w_host w) k")
    case None
    then show ?thesis by simp
  next
    case (Some cur)
    obtain evs where "w_calls (snd (shift_keys so off ks (set_time k (cur + so + off) w)))
        = w_calls (set_time k (cur + so + off) w) @ evs" and "list_all (\<lambda>e. phase e = 4) evs"
      using Cons.IH by blast
    then have "w_calls (snd (shift_keys so off (k # ks) w))
        = w_calls w @ (SetTime (fst k) (snd k) (cur + so + off) # evs)
        \<and> list_all (\<lambda>e. phase e = 4) (SetTime (fst k) (snd k) (cur + so + off) # evs)"
      using Some by (simp add: calls_set_time)
    then show ?thesis by blast
  qed
qed

lemma shift_channels_calls:
  "\<exists>evs. w_calls (snd (shift_channels s0 off data w)) = w_calls w @ evs \<and> list_all (\<lambda>e. phase e = 4) evs"
proof (induction data arbitrary: w)
  case Nil
  then show ?case by simp
next
  case (Cons p rest)
  obtain ch keys where p: "p = (ch, keys)" by (cases p)
  show ?case
  proof (cases keys)
    case Nil
    then show ?thesis using p by simp
  next
    case (Cons k0 ks)
    show ?thesis
    proof (cases "get_time (w_host w) k0")
      case None
      then show ?thesis using p Cons by simp
    next
      case (Some ch_start)
      obtain r w1 where sk: "shift_keys (s0 - ch_start) off keys w = (r, w1)"
        by (cases "shift_keys (s0 - ch_start) off keys w")
      obtain evs1 where e1: "w_calls w1 = w_calls w @ evs1" "list_all (\<lambda>e. phase e = 4) evs1"
        using shift_keys_calls[of "s0 - ch_start" off keys w] sk by auto
      show ?thesis
      proof (cases r)
        case (Inl e)
        then have "snd (shift_channels s0 off (p # rest) w) = w1"
          using p Cons Some sk by simp
        then show ?thesis using e1 by auto
      next
        case (Inr u)
        then have eq: "shift_channels s0 off (p # rest) w = shift_channels s0 off rest w1"
          using p Cons Some sk by simp
        obtain evs2 where "w_calls (snd (shift_channels s0 off rest w1)) = w_calls w1 @ evs2"
          "list_all (\<lambda>e. phase e = 4) evs2"
          using Cons.IH by blast
        then have "w_calls (snd (shift_channels s0 off (p # rest) w)) = w_calls w @ (evs1 @ evs2)
            \<and> list_all (\<lambda>e. phase e = 4) (evs1 @ evs2)"
          using e1 eq by simp
        then show ?thesis by blast
      qed
    qed
  qed
qed

lemma set_start_frame_calls:
  "\<exists>evs. w_calls (snd (snd (set_start_frame f c w))) = w_calls w @ evs \<and> list_all (\<lambda>e. phase e = 4) evs"
proof -
  obtain s0 c1 where st: "SequenceCamera_start c (w_host w) = (s0, c1)"
    by (cases "SequenceCamera_start c (w_host w)")
  show ?thesis
  proof (cases s0)
    case None
    then show ?thesis using st by (simp add: set_start_frame_def)
  next
    case (Some v)
    show ?thesis
    proof (cases "priv_key_frames_data c1")
      case None
      then show ?thesis using st Some by (simp add: set_start_frame_def)
    next
      case (Some data)
      obtain r w' where sc: "shift_channels v (f - v) data w = (r, w')"
        by (cases "shift_channels v (f - v) data w")
      have "snd (snd (set_start_frame f c w)) = w'"
        using st \<open>s0 = Some v\<close> Some sc by (cases r) (simp_all add: set_start_frame_def)
      then show ?thesis using shift_channels_calls[of v "f - v" data w] sc by simp
    qed
  qed
qed

lemma adjust_start_calls:
  "\<exists>adj. w_calls (snd (snd (adjust_start start_frame c w))) = w_calls w @ adj
        \<and> list_all (\<lambda>e. phase e = 4) adj
        \<and> (adj \<noteq> [] \<longrightarrow> start_frame \<noteq> None \<and> start_frame \<noteq> Some 0)"
proof (cases start_frame)
  case None
  then show ?thesis by (simp add: adjust_start_def)
next
  case (Some f)
  show ?thesis
  proof (cases "f = 0")
    case True
    then show ?thesis using Some by (simp add: adjust_start_def)
  next
    case False
    then have "adjust_start start_frame c w = set_start_frame f c w"
      using Some by (simp add: adjust_start_def)
    then show ?thesis using set_start_frame_calls[of f c w] Some False by auto
  qed
qed

lemma setup_loop_both:
  "(st = None) = (en = None) \<Longrightarrow>
     (fst (snd (setup_loop h chs data st en)) = None) = (snd (snd (setup_loop h chs data st en)) = None)"
proof (induction chs arbitrary: data st en)
  case Nil
  then show ?case by simp
next
  case (Cons ch chs)
  show ?case
  proof (cases "get_keys h ch = []")
    case True
    then show ?thesis using Cons by simp
  next
    case False
    have "\<exists>s' e'. setup_loop h (ch # chs) data st en
        = setup_loop h chs (dict_set data ch (get_keys h ch)) (Some s') (Some e')"
      using False by (cases st; cases en) (auto simp: Let_def)
    then obtain s' e' where eq: "setup_loop h (ch # chs) data st en
        = setup_loop h chs (dict_set data ch (get_keys h ch)) (Some s') (Some e')" by blast
    show ?thesis unfolding eq by (rule Cons.IH) simp
  qed
qed

lemma setup_camera_data_both: "both_or_none (setup_camera_data c h)"
  using setup_loop_both[of None None h "camera_channels h (priv_proxy c)" "[]"]
  by (auto simp: both_or_none_def setup_camera_data_def split: prod.splits)

lemma setup_camera_data_proxy: "priv_proxy (setup_camera_data c h) = priv_proxy c"
  by (simp add: setup_camera_data_def split: prod.splits)

lemma setup_camera_data_idem:
  "setup_camera_data (setup_camera_data c h) h = setup_camera_data c h"
  by (simp add: setup_camera_data_def split: prod.splits)

lemma init_both: "both_or_none (SequenceCamera_init h p)"
  by (simp add: both_or_none_def SequenceCamera_init_def)

lemma read_range:
  assumes "both_or_none c"
  shows "\<exists>s e c1 c2. SequenceCamera_start c h = (s, c1)
     \<and> SequenceCamera_end c1 h = (e, c2)
     \<and> both_or_none c2 \<and> priv_proxy c2 = priv_proxy c
     \<and> s = priv_start c2 \<and> e = priv_end c2
     \<and> (priv_start c \<noteq> None \<longrightarrow> c2 = c)"
proof (cases "priv_start c")
  case None
  let ?c1 = "setup_camera_data c h"
  have s: "SequenceCamera_start c h = (priv_start ?c1, ?c1)"
    using None by (simp add: SequenceCamera_start_def Let_def)
  show ?thesis
  proof (cases "priv_end ?c1")
    case None
    then have "SequenceCamera_end ?c1 h = (priv_end ?c1, ?c1)"
      by (simp add: SequenceCamera_end_def setup_camera_data_idem Let_def)
    then show ?thesis using s \<open>priv_start c = None\<close>
      by (simp add: setup_camera_data_both setup_camera_data_proxy)
  next
    case (Some e)
    then have "SequenceCamera_end ?c1 h = (priv_end ?c1, ?c1)"
      by (simp add: SequenceCamera_end_def Let_def)
    then show ?thesis using s \<open>priv_start c = None\<close>
      by (simp add: setup_camera_data_both setup_camera_data_proxy)
  qed
next
  case (Some v)
  then have s: "SequenceCamera_start c h = (priv_start c, c)"
    by (simp add: SequenceCamera_start_def Let_def)
  have "priv_end c \<noteq> None" using assms Some by (simp add: both_or_none_def)
  then have "SequenceCamera_end c h = (priv_end c, c)"
    by (auto simp: SequenceCamera_end_def Let_def)
  then show ?thesis using s assms by simp
qed

lemma wire_sections_trace:
  assumes "both_or_none camera"
  shows "\<exists>xs. w_calls (snd (wire_sections api secs camera w)) = w_calls w @ wired (priv_proxy camera) xs
     \<and> map fst xs = secs
     \<and> list_all (range_of (fst (wire_sections api secs camera w))) xs
     \<and> priv_proxy (fst (wire_sections api secs camera w)) = priv_proxy camera
     \<and> (priv_start camera \<noteq> None \<longrightarrow> fst (wire_sections api secs camera w) = camera)"
  using assms
proof (induction secs arbitrary: camera w)
  case Nil
  have "wired (priv_proxy camera) [] = []" by (simp add: wired_def)
  then show ?case by (intro exI[of _ "[]"]) simp
next
  case (Cons sec secs)
  let ?w1 = "void_call api (SetCameraBindingId sec (priv_proxy camera)) w"
  obtain s e c1 c2 where
    rs: "SequenceCamera_start camera (w_host ?w1) = (s, c1)"
    and re: "SequenceCamera_end c1 (w_host ?w1) = (e, c2)"
    and b2: "both_or_none c2" and p2: "priv_proxy c2 = priv_proxy camera"
    and se: "s = priv_start c2" "e = priv_end c2"
    and stable: "priv_start camera \<noteq> None \<longrightarrow> c2 = camera"
    using read_range[OF Cons.prems, of "w_host ?w1"] by blast
  let ?w2 = "void_call api (SetRange sec s e) ?w1"
  have step: "wire_sections api (sec # secs) camera w = wire_sections api secs c2 ?w2"
    using rs re by (simp add: Let_def split: prod.splits)
  obtain xs where
    t: "w_calls (snd (wire_sections api secs c2 ?w2)) = w_calls ?w2 @ wired (priv_proxy c2) xs"
    and m: "map fst xs = secs"
    and r: "list_all (range_of (fst (wire_sections api secs c2 ?w2))) xs"
    and p: "priv_proxy (fst (wire_sections api secs c2 ?w2)) = priv_proxy c2"
    and st2: "priv_start c2 \<noteq> None \<longrightarrow> fst (wire_sections api secs c2 ?w2) = c2"
    using Cons.IH[OF b2] by blast
  let ?cam = "fst (wire_sections api secs c2 ?w2)"
  have head: "range_of ?cam (sec, s, e)"
  proof (cases "priv_start c2")
    case None
    then have "s = None" "e = None" using se b2 by (simp_all add: both_or_none_def)
    then show ?thesis by (simp add: range_of_def)
  next
    case (Some v)
    then have "?cam = c2" using st2 by simp
    then show ?thesis using se by (simp add: range_of_def)
  qed
  have tr: "w_calls (snd (wire_sections api (sec # secs) camera w))
      = w_calls w @ wired (priv_proxy camera) ((sec, s, e) # xs)"
    unfolding step t by (simp add: calls_void_call wired_def p2)
  have stab: "priv_start camera \<noteq> None \<longrightarrow> fst (wire_sections api (sec # secs) camera w) = camera"
    unfolding step using stable st2 by auto
  show ?case
    apply (intro exI[of _ "(sec, s, e) # xs"])
    using tr m r head p p2 stab unfolding step by simp
qed

lemma creates_phase: "creates e \<Longrightarrow> phase e = 5"
  by (cases e) (simp_all add: creates_def)

lemma wired_phase: "list_all (\<lambda>e. phase e = 5) (wired p xs)"
  by (induction xs) (auto simp: wired_def)

lemma wired_Nil_iff: "wired p xs = [] \<longleftrightarrow> xs = []"
  by (cases xs) (auto simp: wired_def)

lemma camera_cut_track_calls:
  "\<exists>pre. w_calls (snd (camera_cut_track api node w)) = w_calls w @ pre \<and> list_all creates pre"
proof (cases "filter (is_camera_cut_track (w_host w)) (master_tracks (w_host w) node)")
  case Nil
  obtain t h' where a: "add_master_track api node (w_host w) = (t, h')"
    by (cases "add_master_track api node (w_host w)")
  have "w_calls (snd (camera_cut_track api node w)) = w_calls w @ [AddMasterTrack node t]"
    using Nil a by (simp add: camera_cut_track_def add_camera_cut_track_def calls_log_call)
  moreover have "list_all creates [AddMasterTrack node t]" by (simp add: creates_def)
  ultimately show ?thesis by blast
next
  case (Cons x xs)
  then have "w_calls (snd (camera_cut_track api node w)) = w_calls w @ []"
    by (simp add: camera_cut_track_def)
  then show ?thesis by (intro exI[of _ "[]"]) simp
qed

lemma camera_cut_sections_calls:
  "\<exists>pre. w_calls (snd (camera_cut_sections api c w)) = w_calls w @ pre \<and> list_all creates pre"
proof -
  have "snd (camera_cut_sections api c w) = snd (camera_cut_track api (priv_sequence c) w)"
    by (simp add: camera_cut_sections_def Let_def split: prod.splits)
  then show ?thesis using camera_cut_track_calls[of api "priv_sequence c" w] by simp
qed

lemma wire_camera_trace:
  assumes "both_or_none camera"
  shows "\<exists>pre xs. w_calls (snd (wire_camera api sequence camera w))
                     = w_calls w @ pre @ wired (priv_proxy camera) xs
     \<and> list_all creates pre \<and> xs \<noteq> []
     \<and> list_all (range_of (fst (wire_camera api sequence camera w))) xs
     \<and> priv_proxy (fst (wire_camera api sequence camera w)) = priv_proxy camera"
proof -
  obtain sections w1 where cs: "camera_cut_sections api camera w = (sections, w1)"
    by (cases "camera_cut_sections api camera w")
  obtain pre1 where p1: "w_calls w1 = w_calls w @ pre1" "list_all creates pre1"
    using camera_cut_sections_calls[of api camera w] cs by auto
  have "\<exists>secs w4 pre2. wire_camera api sequence camera w = wire_sections api secs camera w4
      \<and> secs \<noteq> [] \<and> w_calls w4 = w_calls w1 @ pre2 \<and> list_all creates pre2"
  proof (cases "sections = []")
    case True
    obtain track w2 where ct: "camera_cut_track api sequence w1 = (track, w2)"
      by (cases "camera_cut_track api sequence w1")
    obtain pre where pr: "w_calls w2 = w_calls w1 @ pre" "list_all creates pre"
      using camera_cut_track_calls[of api sequence w1] ct by auto
    obtain sec h3 where ad: "add_section api track (w_host w2) = (sec, h3)"
      by (cases "add_section api track (w_host w2)")
    let ?w4 = "log_call (AddSection track sec) h3 w2"
    have "wire_camera api sequence camera w = wire_sections api [sec] camera ?w4"
      using cs True ct ad by (simp add: wire_camera_def)
    moreover have "w_calls ?w4 = w_calls w1 @ (pre @ [AddSection track sec])"
      using pr by (simp add: calls_log_call)
    moreover have "list_all creates (pre @ [AddSection track sec])"
      using pr by (simp add: creates_def)
    ultimately show ?thesis by blast
  next
    case False
    then have "wire_camera api sequence camera w = wire_sections api sections camera w1"
      using cs by (simp add: wire_camera_def)
    moreover have "w_calls w1 = w_calls w1 @ []" by simp
    moreover have "list_all creates []" by simp
    ultimately show ?thesis using False by blast
  qed
  then obtain secs w4 pre2 where
    eq: "wire_camera api sequence camera w = wire_sections api secs camera w4"
    and ne: "secs \<noteq> []" and c4: "w_calls w4 = w_calls w1 @ pre2" and l2: "list_all creates pre2"
    by blast
  obtain xs where
    t: "w_calls (snd (wire_sections api secs camera w4)) = w_calls w4 @ wired (priv_proxy camera) xs"
    and m: "map fst xs = secs"
    and r: "list_all (range_of (fst (wire_sections api secs camera w4))) xs"
    and p: "priv_proxy (fst (wire_sections api secs camera w4)) = priv_proxy camera"
    using wire_sections_trace[OF assms, of api secs w4] by blast
  have "xs \<noteq> []" using m ne by auto
  moreover have "w_calls (snd (wire_camera api sequence camera w))
      = w_calls w @ (pre1 @ pre2) @ wired (priv_proxy camera) xs"
    unfolding eq t c4 p1 by simp
  moreover have "list_all creates (pre1 @ pre2)" using p1 l2 by simp
  ultimately show ?thesis using r p unfolding eq by blast
qed

lemma set_start_frame_camera:
  "both_or_none c \<Longrightarrow>
     both_or_none (fst (snd (set_start_frame f c w)))
     \<and> priv_proxy (fst (snd (set_start_frame f c w))) = priv_proxy c"
proof -
  assume b: "both_or_none c"
  obtain s0 c1 where st: "SequenceCamera_start c (w_host w) = (s0, c1)"
    by (cases "SequenceCamera_start c (w_host w)")
  have c1: "both_or_none c1 \<and> priv_proxy c1 = priv_proxy c"
    using st b
    by (auto simp: SequenceCamera_start_def Let_def setup_camera_data_both setup_camera_data_proxy
          split: if_splits)
  show ?thesis
  proof (cases s0)
    case None
    then show ?thesis using st c1 by (simp add: set_start_frame_def)
  next
    case (Some v)
    show ?thesis
    proof (cases "priv_key_frames_data c1")
      case None
      then show ?thesis using st Some c1 by (simp add: set_start_frame_def)
    next
      case (Some data)
      obtain r w' where sc: "shift_channels v (f - v) data w = (r, w')"
        by (cases "shift_channels v (f - v) data w")
      show ?thesis using st \<open>s0 = Some v\<close> Some sc c1
        by (cases r) (simp_all add: set_start_frame_def setup_camera_data_both setup_camera_data_proxy)
    qed
  qed
qed

lemma adjust_start_camera:
  "both_or_none c \<Longrightarrow>
     both_or_none (fst (snd (adjust_start sf c w)))
     \<and> priv_proxy (fst (snd (adjust_start sf c w))) = priv_proxy c"
  using set_start_frame_camera[of c _ w]
  by (cases sf) (auto simp: adjust_start_def)

lemma obtain_proxy_trace:
  "\<exists>a. w_calls (snd (snd (obtain_proxy api sequence nm proxy_arg w)))
          = w_calls w @ spawned sequence nm proxy_arg a (fst (snd (obtain_proxy api sequence nm proxy_arg w)))
       \<and> fst (obtain_proxy api sequence nm proxy_arg w) = (case proxy_arg of None \<Rightarrow> Some a | Some q \<Rightarrow> None)
       \<and> (\<forall>q. proxy_arg = Some q \<longrightarrow> fst (snd (obtain_proxy api sequence nm proxy_arg w)) = q)"
proof (cases proxy_arg)
  case None
  obtain a h1 where sp: "spawn_actor_from_class api (w_host w) = (a, h1)"
    by (cases "spawn_actor_from_class api (w_host w)")
  let ?w2 = "void_call api (SetActorLabel a nm) (log_call (SpawnActor a) h1 w)"
  obtain p h3 where ad: "add_spawnable_from_instance api sequence a (w_host ?w2) = (p, h3)"
    by (cases "add_spawnable_from_instance api sequence a (w_host ?w2)")
  have "obtain_proxy api sequence nm proxy_arg w
      = (Some a, p, log_call (AddSpawnable sequence a p) h3 ?w2)"
    using None sp ad by (simp add: obtain_proxy_def Let_def)
  then show ?thesis using None
    by (intro exI[of _ a]) (simp add: spawned_def calls_log_call calls_void_call)
next
  case (Some q)
  then show ?thesis by (simp add: obtain_proxy_def spawned_def)
qed

lemma import_camera_trace:
  "\<exists>a p st adj wiring.
     w_calls (snd (import_camera api fbx_path sequence proxy_arg name_arg start_frame new_section w))
       = w_calls w @ [OpenEditor sequence]
           @ spawned sequence (import_name api fbx_path name_arg) proxy_arg a p
           @ [ImportFbx sequence p (path_as_posix api fbx_path) st]
           @ destroyed proxy_arg a @ adj @ wiring
     \<and> (\<forall>q. proxy_arg = Some q \<longrightarrow> p = q)
     \<and> list_all (\<lambda>e. phase e = 4) adj
     \<and> (adj \<noteq> [] \<longrightarrow> st \<and> start_frame \<noteq> None \<and> start_frame \<noteq> Some 0)
     \<and> list_all (\<lambda>e. phase e = 5) wiring
     \<and> (wiring \<noteq> [] \<longrightarrow> st \<and> new_section)
     \<and> (\<not> st \<longrightarrow>
           fst (import_camera api fbx_path sequence proxy_arg name_arg start_frame new_section w) = Inr None)
     \<and> (\<forall>cam. fst (import_camera api fbx_path sequence proxy_arg name_arg start_frame new_section w)
                  = Inr (Some cam) \<longrightarrow>
           st \<and> priv_proxy cam = p
           \<and> (new_section \<longrightarrow>
                (\<exists>pre xs. wiring = pre @ wired p xs \<and> list_all creates pre \<and> xs \<noteq> []
                    \<and> list_all (range_of cam) xs)))"
proof -
  let ?R = "import_camera api fbx_path sequence proxy_arg name_arg start_frame new_section w"
  let ?nm = "import_name api fbx_path name_arg"
  let ?w1 = "void_call api (OpenEditor sequence) w"
  obtain cam_actor p w2 where op: "obtain_proxy api sequence ?nm proxy_arg ?w1 = (cam_actor, p, w2)"
    by (cases "obtain_proxy api sequence ?nm proxy_arg ?w1")
  have "\<exists>a. w_calls w2 = w_calls ?w1 @ spawned sequence ?nm proxy_arg a p
      \<and> cam_actor = (case proxy_arg of None \<Rightarrow> Some a | Some q \<Rightarrow> None)
      \<and> (\<forall>q. proxy_arg = Some q \<longrightarrow> p = q)"
    using obtain_proxy_trace[of api sequence ?nm proxy_arg ?w1] unfolding op by simp
  then obtain a where c2: "w_calls w2 = w_calls ?w1 @ spawned sequence ?nm proxy_arg a p"
    and ca: "cam_actor = (case proxy_arg of None \<Rightarrow> Some a | Some q \<Rightarrow> None)"
    and pq: "\<forall>q. proxy_arg = Some q \<longrightarrow> p = q"
    by blast
  obtain st h3 where im: "import_level_sequence_fbx api sequence p (path_as_posix api fbx_path) (w_host w2) = (st, h3)"
    by (cases "import_level_sequence_fbx api sequence p (path_as_posix api fbx_path) (w_host w2)")
  let ?w3 = "log_call (ImportFbx sequence p (path_as_posix api fbx_path) st) h3 w2"
  let ?w4 = "(case cam_actor of Some x \<Rightarrow> void_call api (DestroyActor x) ?w3 | None \<Rightarrow> ?w3)"
  let ?camera = "SequenceCamera_init (w_host ?w4) p"
  have c4: "w_calls ?w4 = w_calls w @ [OpenEditor sequence] @ spawned sequence ?nm proxy_arg a p
           @ [ImportFbx sequence p (path_as_posix api fbx_path) st] @ destroyed proxy_arg a"
    using c2 ca by (cases proxy_arg) (simp_all add: calls_void_call calls_log_call destroyed_def)
  have unfold: "?R = (if \<not> st then (Inr None, ?w4)
                      else (case adjust_start start_frame ?camera ?w4 of
                              (Inl e, camera1, w5) \<Rightarrow> (Inl e, w5)
                            | (Inr u, camera1, w5) \<Rightarrow>
                                if new_section then
                                  (case wire_camera api sequence camera1 w5 of
                                     (camera2, w6) \<Rightarrow> (Inr (Some camera2), w6))
                                else (Inr (Some camera1), w5)))"
    using op im by (simp add: import_camera_def import_name_def Let_def)
  show ?thesis
  proof (cases st)
    case False
    then have R: "?R = (Inr None, ?w4)" using unfold by simp
    show ?thesis
      apply (rule exI[of _ a], rule exI[of _ p], rule exI[of _ st], rule exI[of _ "[]"], rule exI[of _ "[]"])
      using R c4 pq False by simp
  next
    case True
    obtain r camera1 w5 where ad: "adjust_start start_frame ?camera ?w4 = (r, camera1, w5)"
      by (cases "adjust_start start_frame ?camera ?w4")
    obtain adj where c5: "w_calls w5 = w_calls ?w4 @ adj" and l4: "list_all (\<lambda>e. phase e = 4) adj"
      and tr: "adj \<noteq> [] \<longrightarrow> start_frame \<noteq> None \<and> start_frame \<noteq> Some 0"
      using adjust_start_calls[of start_frame ?camera ?w4] ad by auto
    have ib: "both_or_none ?camera" by (rule init_both)
    have b1: "both_or_none camera1" and p1: "priv_proxy camera1 = p"
      using adjust_start_camera[OF ib, of start_frame ?w4] ad
      by (simp_all add: SequenceCamera_init_def)
    show ?thesis
    proof (cases r)
      case (Inl e)
      then have R: "?R = (Inl e, w5)" using unfold True ad by simp
      show ?thesis
        apply (rule exI[of _ a], rule exI[of _ p], rule exI[of _ st], rule exI[of _ adj], rule exI[of _ "[]"])
        using R c4 c5 pq True l4 tr by simp
    next
      case (Inr u)
      show ?thesis
      proof (cases new_section)
        case False
        then have R: "?R = (Inr (Some camera1), w5)" using unfold True ad Inr by simp
        show ?thesis
          apply (rule exI[of _ a], rule exI[of _ p], rule exI[of _ st], rule exI[of _ adj], rule exI[of _ "[]"])
          using R c4 c5 pq True l4 tr False p1 by simp
      next
        case ns: True
        obtain camera2 w6 where wc: "wire_camera api sequence camera1 w5 = (camera2, w6)"
          by (cases "wire_camera api sequence camera1 w5")
        obtain pre xs where c6: "w_calls w6 = w_calls w5 @ pre @ wired (priv_proxy camera1) xs"
          and lc: "list_all creates pre" and xne: "xs \<noteq> []"
          and ro: "list_all (range_of camera2) xs" and p2: "priv_proxy camera2 = priv_proxy camera1"
          using wire_camera_trace[OF b1, of api sequence w5] wc by auto
        have R: "?R = (Inr (Some camera2), w6)" using unfold True ad Inr ns wc by simp
        have l5: "list_all (\<lambda>e. phase e = 5) (pre @ wired p xs)"
          using lc wired_phase[of p xs] by (auto simp: list_all_iff creates_phase)
        have ex: "\<exists>pre' xs'. pre @ wired p xs = pre' @ wired p xs' \<and> list_all creates pre' \<and> xs' \<noteq> []
                    \<and> list_all (range_of camera2) xs'"
          using lc xne ro by blast
        show ?thesis
          apply (rule exI[of _ a], rule exI[of _ p], rule exI[of _ st], rule exI[of _ adj], rule exI[of _ "pre @ wired p xs"])
          using R c4 c5 c6 pq True l4 tr ns p1 p2 l5 ex by simp
      qed
    qed
  qed
qed

lemma demo_setup:
  "setup_loop demo_host [30, 31, 32] [] None None
     = ([(30, [(30, 0), (30, 1), (30, 2)]), (32, [(32, 0), (32, 1)])], Some 5, Some 12)"
  by (simp add: demo_host_def get_keys_def Let_def upt_rec)

lemma demo_camera_start:
  "SequenceCamera_start (SequenceCamera_init demo_host 3) demo_host
    = (Some 5, \<lparr>priv_proxy = 3, priv_sequence = 100, priv_start = Some 5, priv_end = Some 12,
         priv_key_frames_data = Some [(30, [(30, 0), (30, 1), (30, 2)]), (32, [(32, 0), (32, 1)])]\<rparr>)"
proof -
  have "proxy_sequence demo_host 3 = 100" by (simp add: demo_host_def)
  then show ?thesis
    by (simp add: SequenceCamera_start_def SequenceCamera_init_def setup_camera_data_def
        demo_camera_channels demo_setup Let_def del: setup_loop.simps)
qed


lemma demo_shift:
  "shift_channels 5 (1001 - 5) [(30, [(30, 0), (30, 1), (30, 2)]), (32, [(32, 0), (32, 1)])] demo_world
     = (Inr (),
        \<lparr>w_host = demo_host\<lparr>channel_keys :=
             (\<lambda>c. if c = 30 then [1001, 1004, 1008] else if c = 32 then [1001, 1003] else [])\<rparr>,
         w_calls = [SetTime 30 0 1001, SetTime 30 1 1004, SetTime 30 2 1008,
                    SetTime 32 0 1001, SetTime 32 1 1003]\<rparr>)"
  by (simp add: demo_world_def demo_host_def get_time_def set_time_def log_call_def fun_eq_iff)




section \<open>The cameras add_cameras imports\<close>

lemma spawned_phase: "list_all (\<lambda>e. phase e = 1) (spawned s n pa a p)"
  by (cases pa) (simp_all add: spawned_def)

lemma destroyed_phase: "list_all (\<lambda>e. phase e = 3) (destroyed pa a)"
  by (cases pa) (simp_all add: destroyed_def)

lemma filter_none: "list_all (\<lambda>e. \<not> P e) xs \<Longrightarrow> filter P xs = []"
  by (induction xs) auto

lemma is_AddCamera_phase: "is_AddCamera e \<Longrightarrow> phase e = 6"
  by (cases e) (simp_all add: is_AddCamera_def)

lemma list_all_phase_not:
  "list_all (\<lambda>e. phase e = k) xs \<Longrightarrow> k \<noteq> j \<Longrightarrow> list_all (\<lambda>e. \<not> phase e = j) xs"
  by (induction xs) auto

lemma list_all_phase_not_add:
  "list_all (\<lambda>e. phase e = k) xs \<Longrightarrow> k \<noteq> 6 \<Longrightarrow> list_all (\<lambda>e. \<not> is_AddCamera e) xs"
  by (induction xs) (auto dest: is_AddCamera_phase)

lemma import_camera_events:
  "\<exists>evs p st. w_calls (snd (import_camera api fbx_path sequence proxy_arg name_arg start_frame new_section w))
       = w_calls w @ evs
     \<and> filter (\<lambda>e. phase e = 2) evs = [ImportFbx sequence p (path_as_posix api fbx_path) st]
     \<and> filter is_AddCamera evs = []
     \<and> (\<forall>cam. fst (import_camera api fbx_path sequence proxy_arg name_arg start_frame new_section w)
                  = Inr (Some cam) \<longrightarrow> st)"
proof -
  obtain a p st adj wiring where
    t: "w_calls (snd (import_camera api fbx_path sequence proxy_arg name_arg start_frame new_section w))
       = w_calls w @ [OpenEditor sequence]
           @ spawned sequence (import_name api fbx_path name_arg) proxy_arg a p
           @ [ImportFbx sequence p (path_as_posix api fbx_path) st]
           @ destroyed proxy_arg a @ adj @ wiring"
    and l4: "list_all (\<lambda>e. phase e = 4) adj" and l5: "list_all (\<lambda>e. phase e = 5) wiring"
    and ok: "\<forall>cam. fst (import_camera api fbx_path sequence proxy_arg name_arg start_frame new_section w)
                  = Inr (Some cam) \<longrightarrow> st"
    using import_camera_trace[of api fbx_path sequence proxy_arg name_arg start_frame new_section w]
    by blast
  let ?sp = "spawned sequence (import_name api fbx_path name_arg) proxy_arg a p"
  let ?de = "destroyed proxy_arg a"
  have f2: "filter (\<lambda>e. phase e = 2) ?sp = []" "filter (\<lambda>e. phase e = 2) ?de = []"
    "filter (\<lambda>e. phase e = 2) adj = []" "filter (\<lambda>e. phase e = 2) wiring = []"
    using list_all_phase_not[OF spawned_phase, of 2] list_all_phase_not[OF destroyed_phase, of 2]
      list_all_phase_not[OF l4, of 2] list_all_phase_not[OF l5, of 2]
    by (simp_all add: filter_none)
  have fa: "filter is_AddCamera ?sp = []" "filter is_AddCamera ?de = []"
    "filter is_AddCamera adj = []" "filter is_AddCamera wiring = []"
    using list_all_phase_not_add[OF spawned_phase] list_all_phase_not_add[OF destroyed_phase]
      list_all_phase_not_add[OF l4] list_all_phase_not_add[OF l5]
    by (simp_all add: filter_none)
  have "filter (\<lambda>e. phase e = 2) ([OpenEditor sequence] @ ?sp
           @ [ImportFbx sequence p (path_as_posix api fbx_path) st] @ ?de @ adj @ wiring)
        = [ImportFbx sequence p (path_as_posix api fbx_path) st]"
    using f2 by simp
  moreover have "filter is_AddCamera ([OpenEditor sequence] @ ?sp
           @ [ImportFbx sequence p (path_as_posix api fbx_path) st] @ ?de @ adj @ wiring) = []"
    using fa by (simp add: is_AddCamera_def)
  ultimately show ?thesis using t ok by blast
qed

lemma add_camera_events:
  "\<exists>evs p st. w_calls (snd (add_camera api self fbx_path name_arg start_frame mcn w)) = w_calls w @ evs
     \<and> filter (\<lambda>e. phase e = 2) evs = [ImportFbx self p (path_as_posix api (path_as_posix api fbx_path)) st]
     \<and> filter is_AddCamera evs = [AddCamera fbx_path name_arg start_frame]
     \<and> (\<forall>cam. fst (add_camera api self fbx_path name_arg start_frame mcn w) = Inr cam \<longrightarrow> st)"
proof -
  let ?w = "log_call (AddCamera fbx_path name_arg start_frame) (w_host w) w"
  define nm where "nm = camera_name_or_stem api fbx_path name_arg"
  define cp where "cp = matching_proxy (w_host ?w) self nm mcn"
  have eq: "snd (add_camera api self fbx_path name_arg start_frame mcn w)
       = snd (import_camera api (path_as_posix api fbx_path) self cp (Some nm) start_frame True ?w)"
    unfolding nm_def cp_def
    by (simp add: add_camera_def Let_def split: prod.splits sum.splits option.splits)
  obtain evs p st where
    t: "w_calls (snd (import_camera api (path_as_posix api fbx_path) self cp (Some nm) start_frame True ?w))
       = w_calls ?w @ evs"
    and f2: "filter (\<lambda>e. phase e = 2) evs = [ImportFbx self p (path_as_posix api (path_as_posix api fbx_path)) st]"
    and fa: "filter is_AddCamera evs = []"
    and ok: "\<forall>cam. fst (import_camera api (path_as_posix api fbx_path) self cp (Some nm) start_frame True ?w)
                  = Inr (Some cam) \<longrightarrow> st"
    using import_camera_events[of api "path_as_posix api fbx_path" self cp "Some nm" start_frame True ?w]
    by blast
  have ok': "\<forall>cam. fst (add_camera api self fbx_path name_arg start_frame mcn w) = Inr cam \<longrightarrow> st"
    using ok unfolding nm_def cp_def
    by (auto simp: add_camera_def Let_def split: prod.splits sum.splits option.splits)
  have "w_calls (snd (add_camera api self fbx_path name_arg start_frame mcn w))
      = w_calls w @ (AddCamera fbx_path name_arg start_frame # evs)"
    unfolding eq t by (simp add: calls_log_call)
  moreover have "filter (\<lambda>e. phase e = 2) (AddCamera fbx_path name_arg start_frame # evs)
      = [ImportFbx self p (path_as_posix api (path_as_posix api fbx_path)) st]"
    using f2 by simp
  moreover have "filter is_AddCamera (AddCamera fbx_path name_arg start_frame # evs)
      = [AddCamera fbx_path name_arg start_frame]"
    using fa by (simp add: is_AddCamera_def)
  ultimately show ?thesis using ok' by blast
qed

lemma SequenceCamera_end_value: "SequenceCamera_end c h = (e, c1) \<Longrightarrow> priv_end c1 = e"
  by (auto simp: SequenceCamera_end_def Let_def)

lemma SequenceCamera_end_cached: "priv_end c \<noteq> None \<Longrightarrow> SequenceCamera_end c h = (priv_end c, c)"
  by (auto simp: SequenceCamera_end_def Let_def)

lemma next_start_frame_result:
  assumes "next_start_frame cam_order camera sf h = Inr (sf', c1)"
  shows "sf' = (if cam_order = one_by_one then map_option (\<lambda>e. e + 1) (priv_end c1) else sf)
       \<and> (cam_order = one_by_one \<longrightarrow> priv_end c1 \<noteq> None)"
proof (cases "cam_order = one_by_one")
  case True
  obtain e c' where r: "SequenceCamera_end camera h = (e, c')" by (cases "SequenceCamera_end camera h")
  then show ?thesis using assms True SequenceCamera_end_value[OF r]
    by (cases e) (auto simp: next_start_frame_def)
next
  case False
  then show ?thesis using assms by (simp add: next_start_frame_def)
qed

lemma next_end_keeps:
  assumes "next_end afr cam_order en c1 h = Inr (en', c2)" "priv_end c1 \<noteq> None"
  shows "c2 = c1"
  using assms SequenceCamera_end_cached[OF assms(2), of h]
  by (auto simp: next_end_def split: if_splits option.splits)

lemma add_cameras_loop_trace:
  assumes "fst (add_cameras_loop api self mcn cam_order afr cameras sf en acc w) = Inr (result, en')"
  shows "\<exists>new evs. result = acc @ new
      \<and> w_calls (snd (add_cameras_loop api self mcn cam_order afr cameras sf en acc w)) = w_calls w @ evs
      \<and> length new = length (first_pairs cameras)
      \<and> filter is_AddCamera evs = requests cam_order sf (first_pairs cameras) new
      \<and> list_all2 (imports_pair api self) (filter (\<lambda>e. phase e = 2) evs) (first_pairs cameras)"
  using assms
proof (induction cameras arbitrary: sf en acc w)
  case Nil
  then show ?case by simp
next
  case (Cons camera_data rest)
  show ?case
  proof (cases camera_data)
    case Nil
    then have eq: "add_cameras_loop api self mcn cam_order afr (camera_data # rest) sf en acc w
        = add_cameras_loop api self mcn cam_order afr rest sf en acc w"
      by simp
    show ?thesis using Cons.IH[of sf en acc w] Cons.prems unfolding eq Nil by simp
  next
    case (Cons pair others)
    obtain camera_name camera_path where pair: "pair = (camera_name, camera_path)" by (cases pair)
    obtain r w1 where ac: "add_camera api self camera_path (Some camera_name) sf mcn w = (r, w1)"
      by (cases "add_camera api self camera_path (Some camera_name) sf mcn w")
    obtain evs1 p st where
      c1: "w_calls w1 = w_calls w @ evs1"
      and f2: "filter (\<lambda>e. phase e = 2) evs1
                 = [ImportFbx self p (path_as_posix api (path_as_posix api camera_path)) st]"
      and fa: "filter is_AddCamera evs1 = [AddCamera camera_path (Some camera_name) sf]"
      and ok: "\<forall>cam. r = Inr cam \<longrightarrow> st"
      using add_camera_events[of api self camera_path "Some camera_name" sf mcn w] ac by auto
    show ?thesis
    proof (cases r)
      case (Inl e)
      then show ?thesis using Cons.prems Cons pair ac by simp
    next
      case (Inr camera)
      show ?thesis
      proof (cases "next_start_frame cam_order camera sf (w_host w1)")
        case (Inl e)
        then show ?thesis using Cons.prems Cons pair ac Inr by simp
      next
        case ns: (Inr x)
        obtain sf' cam1 where x: "x = (sf', cam1)" by (cases x)
        show ?thesis
        proof (cases "next_end afr cam_order en cam1 (w_host w1)")
          case (Inl e)
          then show ?thesis using Cons.prems Cons pair ac Inr ns x by simp
        next
          case ne: (Inr y)
          obtain en1 cam2 where y: "y = (en1, cam2)" by (cases y)
          have eq: "add_cameras_loop api self mcn cam_order afr (camera_data # rest) sf en acc w
              = add_cameras_loop api self mcn cam_order afr rest sf' en1 (acc @ [cam2]) w1"
            using Cons pair ac Inr ns x ne y by simp
          have nsr: "sf' = (if cam_order = one_by_one then map_option (\<lambda>e. e + 1) (priv_end cam1) else sf)"
            and nn: "cam_order = one_by_one \<longrightarrow> priv_end cam1 \<noteq> None"
            using next_start_frame_result[of cam_order camera sf "w_host w1" sf' cam1] ns x by simp_all
          have sf'': "sf' = (if cam_order = one_by_one then map_option (\<lambda>e. e + 1) (priv_end cam2) else sf)"
          proof (cases "cam_order = one_by_one")
            case True
            then have "cam2 = cam1"
              using next_end_keeps[of afr cam_order en cam1 "w_host w1" en1 cam2] ne y nn by simp
            then show ?thesis using nsr by simp
          next
            case False
            then show ?thesis using nsr by simp
          qed
          obtain new evs where
            res: "result = (acc @ [cam2]) @ new"
            and c2: "w_calls (snd (add_cameras_loop api self mcn cam_order afr rest sf' en1 (acc @ [cam2]) w1))
                      = w_calls w1 @ evs"
            and len: "length new = length (first_pairs rest)"
            and req: "filter is_AddCamera evs = requests cam_order sf' (first_pairs rest) new"
            and imp: "list_all2 (imports_pair api self) (filter (\<lambda>e. phase e = 2) evs) (first_pairs rest)"
            using Cons.IH[of sf' en1 "acc @ [cam2]" w1] Cons.prems unfolding eq by blast
          have fp: "first_pairs (camera_data # rest) = (camera_name, camera_path) # first_pairs rest"
            using Cons pair by simp
          have a: "result = acc @ (cam2 # new)" using res by simp
          have b: "w_calls (snd (add_cameras_loop api self mcn cam_order afr (camera_data # rest) sf en acc w))
              = w_calls w @ (evs1 @ evs)"
            unfolding eq c2 c1 by simp
          have c: "length (cam2 # new) = length (first_pairs (camera_data # rest))"
            using len fp by simp
          have d: "filter is_AddCamera (evs1 @ evs)
              = requests cam_order sf (first_pairs (camera_data # rest)) (cam2 # new)"
            unfolding fp using fa req sf'' by simp
          have e: "list_all2 (imports_pair api self) (filter (\<lambda>e. phase e = 2) (evs1 @ evs))
                     (first_pairs (camera_data # rest))"
            unfolding fp using f2 imp ok Inr by (auto simp: imports_pair_def)
          show ?thesis using a b c d e by blast
        qed
      qed
    qed
  qed
qed

lemma set_start_calls:
  "\<exists>tl. w_calls (snd (set_start api node frame w)) = w_calls w @ tl
        \<and> filter is_AddCamera tl = [] \<and> filter (\<lambda>e. phase e = 2) tl = []"
proof -
  have "snd (set_start api node frame w) = void_call api (SetPlaybackStart node frame) w
      \<or> snd (set_start api node frame w)
          = void_call api (SetWorkRangeStart node) (void_call api (SetViewRangeStart node)
              (void_call api (SetPlaybackStart node frame) w))"
    by (auto simp: set_start_def Let_def split: option.splits sum.splits)
  then show ?thesis
  proof
    assume "snd (set_start api node frame w) = void_call api (SetPlaybackStart node frame) w"
    then have "w_calls (snd (set_start api node frame w)) = w_calls w @ [SetPlaybackStart node frame]"
      by (simp add: calls_void_call)
    then show ?thesis by (intro exI[of _ "[SetPlaybackStart node frame]"]) (simp add: is_AddCamera_def)
  next
    assume "snd (set_start api node frame w)
          = void_call api (SetWorkRangeStart node) (void_call api (SetViewRangeStart node)
              (void_call api (SetPlaybackStart node frame) w))"
    then have "w_calls (snd (set_start api node frame w))
        = w_calls w @ [SetPlaybackStart node frame, SetViewRangeStart node, SetWorkRangeStart node]"
      by (simp add: calls_void_call)
    then show ?thesis
      by (intro exI[of _ "[SetPlaybackStart node frame, SetViewRangeStart node, SetWorkRangeStart node]"])
         (simp add: is_AddCamera_def)
  qed
qed

lemma set_end_calls:
  "\<exists>tl. w_calls (snd (set_end api node frame w)) = w_calls w @ tl
        \<and> filter is_AddCamera tl = [] \<and> filter (\<lambda>e. phase e = 2) tl = []"
proof -
  have "snd (set_end api node frame w) = void_call api (SetPlaybackEnd node frame) w
      \<or> snd (set_end api node frame w)
          = void_call api (SetWorkRangeEnd node) (void_call api (SetViewRangeEnd node)
              (void_call api (SetPlaybackEnd node frame) w))"
    by (auto simp: set_end_def Let_def split: option.splits sum.splits)
  then show ?thesis
  proof
    assume "snd (set_end api node frame w) = void_call api (SetPlaybackEnd node frame) w"
    then have "w_calls (snd (set_end api node frame w)) = w_calls w @ [SetPlaybackEnd node frame]"
      by (simp add: calls_void_call)
    then show ?thesis by (intro exI[of _ "[SetPlaybackEnd node frame]"]) (simp add: is_AddCamera_def)
  next
    assume "snd (set_end api node frame w)
          = void_call api (SetWorkRangeEnd node) (void_call api (SetViewRangeEnd node)
              (void_call api (SetPlaybackEnd node frame) w))"
    then have "w_calls (snd (set_end api node frame w))
        = w_calls w @ [SetPlaybackEnd node frame, SetViewRangeEnd node, SetWorkRangeEnd node]"
      by (simp add: calls_void_call)
    then show ?thesis
      by (intro exI[of _ "[SetPlaybackEnd node frame, SetViewRangeEnd node, SetWorkRangeEnd node]"])
         (simp add: is_AddCamera_def)
  qed
qed

lemma demo_add_cameras_loop:
  "fst (add_cameras_loop demo_api 100 True one_by_one True demo_cameras (Some 1001) None [] demo_world)
     = Inr (demo_result, Some 1016)"
  by code_simp

lemma demo_add_cameras:
  "fst (add_cameras demo_api 100 demo_cameras (Some 1001) True one_by_one True demo_world) = Inr demo_result"
  by code_simp

lemma demo_default_loop:
  "fst (add_cameras_loop demo_api 100 True one_by_one True demo_cameras None None [] demo_world)
     = Inr (demo_default_result, Some 20)"
  by code_simp

lemma demo_default_add_cameras:
  "fst (add_cameras demo_api 100 demo_cameras None True one_by_one True demo_world) = Inl TypeError"
  by code_simp

text \<open>
  C10, as the code has it. When the loop of \<open>add_cameras\<close> over the list completes (no
  import fails and no camera lacks the keys its end is read from), the call has imported
  one camera for every dict of the list that is not empty, and none for an empty dict,
  whether or not the frame range set after the loop makes the call raise: the loop has
  collected one camera for each first item, the FBX imports are, in order, successful
  imports of the paths of the first items, and the calls of \<^verbatim>\<open>add_camera\<close> are those
  of the first items, the first with the start frame passed and, under \<^verbatim>\<open>one_by_one\<close>,
  each later one with the end frame of the camera before it plus one. The call returns
  nothing but the cameras collected, and it returns them when \<^verbatim>\<open>auto_frame_range\<close>
  is off.
\<close>

theorem add_cameras_first_pairs:
  assumes "fst (add_cameras_loop api self mcn cam_order afr cameras start_frame None [] w)
             = Inr (result, end_v)"
  shows "\<exists>evs. w_calls (snd (add_cameras api self cameras start_frame mcn cam_order afr w)) = w_calls w @ evs
     \<and> length result = length (first_pairs cameras)
     \<and> list_all2 (imports_pair api self) (filter (\<lambda>e. phase e = 2) evs) (first_pairs cameras)
     \<and> filter is_AddCamera evs = requests cam_order start_frame (first_pairs cameras) result
     \<and> (\<forall>r. fst (add_cameras api self cameras start_frame mcn cam_order afr w) = Inr r \<longrightarrow> r = result)
     \<and> (\<not> afr \<longrightarrow> fst (add_cameras api self cameras start_frame mcn cam_order afr w) = Inr result)"
proof -
  let ?L = "add_cameras_loop api self mcn cam_order afr cameras start_frame None [] w"
  let ?A = "add_cameras api self cameras start_frame mcn cam_order afr w"
  obtain w1 where L: "?L = (Inr (result, end_v), w1)" using assms by (cases ?L) simp
  obtain new evs where n: "result = [] @ new" and c1: "w_calls w1 = w_calls w @ evs"
    and len: "length new = length (first_pairs cameras)"
    and req: "filter is_AddCamera evs = requests cam_order start_frame (first_pairs cameras) new"
    and imp: "list_all2 (imports_pair api self) (filter (\<lambda>e. phase e = 2) evs) (first_pairs cameras)"
    using add_cameras_loop_trace[of api self mcn cam_order afr cameras start_frame None "[]" w result end_v] L
    by auto
  show ?thesis
  proof (cases afr)
    case False
    then have "?A = (Inr result, w1)"
      using L by (simp add: add_cameras_def)
    then show ?thesis using False c1 len req imp n by auto
  next
    case True
    obtain r2 w2 where s: "set_start api self start_frame w1 = (r2, w2)"
      by (cases "set_start api self start_frame w1")
    obtain t1 where t1: "w_calls w2 = w_calls w1 @ t1" "filter is_AddCamera t1 = []"
      "filter (\<lambda>e. phase e = 2) t1 = []"
      using set_start_calls[of api self start_frame w1] s by auto
    obtain r3 w3 where e: "set_end api self end_v w2 = (r3, w3)"
      by (cases "set_end api self end_v w2")
    obtain t2 where t2: "w_calls w3 = w_calls w2 @ t2" "filter is_AddCamera t2 = []"
      "filter (\<lambda>e. phase e = 2) t2 = []"
      using set_end_calls[of api self end_v w2] e by auto
    have ret: "\<forall>r. fst ?A = Inr r \<longrightarrow> r = result"
      using L True s e by (cases r2; cases r3) (auto simp: add_cameras_def)
    have "\<exists>t. w_calls (snd ?A) = w_calls w1 @ t \<and> filter is_AddCamera t = []
        \<and> filter (\<lambda>e. phase e = 2) t = []"
    proof (cases r2)
      case (Inl x)
      then have "snd ?A = w2" using L True s by (simp add: add_cameras_def)
      then show ?thesis using t1 by auto
    next
      case (Inr u)
      then have "snd ?A = w3" using L True s e by (cases r3) (simp_all add: add_cameras_def)
      then have "w_calls (snd ?A) = w_calls w1 @ (t1 @ t2)" using t1 t2 by simp
      moreover have "filter is_AddCamera (t1 @ t2) = []" "filter (\<lambda>e. phase e = 2) (t1 @ t2) = []"
        using t1 t2 by simp_all
      ultimately show ?thesis by blast
    qed
    then obtain t where t: "w_calls (snd ?A) = w_calls w1 @ t" "filter is_AddCamera t = []"
      "filter (\<lambda>e. phase e = 2) t = []"
      by blast
    have "w_calls (snd ?A) = w_calls w @ (evs @ t)" using c1 t by simp
    moreover have "filter is_AddCamera (evs @ t) = requests cam_order start_frame (first_pairs cameras) result"
      using req t n by simp
    moreover have "list_all2 (imports_pair api self) (filter (\<lambda>e. phase e = 2) (evs @ t)) (first_pairs cameras)"
      using imp t by simp
    ultimately show ?thesis using ret True len n by auto
  qed
qed

theorem add_cameras_first_pairs_witness:
  "fst (add_cameras_loop demo_api 100 True one_by_one True demo_cameras None None [] demo_world)
     = Inr (demo_default_result, Some 20)
   \<and> fst (add_cameras demo_api 100 demo_cameras None True one_by_one True demo_world) = Inl TypeError
   \<and> (\<exists>evs. w_calls (snd (add_cameras demo_api 100 demo_cameras None True one_by_one True demo_world))
               = w_calls demo_world @ evs
        \<and> length demo_default_result = 2
        \<and> filter (\<lambda>e. phase e = 2) evs = [ImportFbx 100 3 ''a.fbx'' True, ImportFbx 100 3 ''c.fbx'' True]
        \<and> list_all2 (imports_pair demo_api 100) (filter (\<lambda>e. phase e = 2) evs)
             [(''shot_0010'', ''a.fbx''), (''shot_0010'', ''c.fbx'')]
        \<and> filter is_AddCamera evs
             = [AddCamera ''a.fbx'' (Some ''shot_0010'') None,
                AddCamera ''c.fbx'' (Some ''shot_0010'') (Some 13)])"
proof -
  have h: "fst (add_cameras_loop demo_api 100 True one_by_one True demo_cameras None None [] demo_world)
             = Inr (demo_default_result, Some 20)"
    by (rule demo_default_loop)
  have fp: "first_pairs demo_cameras = [(''shot_0010'', ''a.fbx''), (''shot_0010'', ''c.fbx'')]"
    by (simp add: demo_cameras_def)
  have rq: "requests one_by_one None [(''shot_0010'', ''a.fbx''), (''shot_0010'', ''c.fbx'')] demo_default_result
      = [AddCamera ''a.fbx'' (Some ''shot_0010'') None,
         AddCamera ''c.fbx'' (Some ''shot_0010'') (Some 13)]"
    by (simp add: demo_default_result_def)
  have len: "length demo_default_result = 2" by (simp add: demo_default_result_def)
  obtain evs where
    c: "w_calls (snd (add_cameras demo_api 100 demo_cameras None True one_by_one True demo_world))
       = w_calls demo_world @ evs"
    and i: "list_all2 (imports_pair demo_api 100) (filter (\<lambda>e. phase e = 2) evs)
       [(''shot_0010'', ''a.fbx''), (''shot_0010'', ''c.fbx'')]"
    and r: "filter is_AddCamera evs
       = [AddCamera ''a.fbx'' (Some ''shot_0010'') None,
          AddCamera ''c.fbx'' (Some ''shot_0010'') (Some 13)]"
    using add_cameras_first_pairs [OF h] unfolding fp rq by blast
  have tr: "w_calls (snd (add_cameras demo_api 100 demo_cameras None True one_by_one True demo_world))
      = [AddCamera ''a.fbx'' (Some ''shot_0010'') None, OpenEditor 100,
         ImportFbx 100 3 ''a.fbx'' True, AddMasterTrack 100 50,
         AddMasterTrack 100 50, AddSection 50 60, SetCameraBindingId 60 3,
         SetRange 60 (Some 5) (Some 12),
         AddCamera ''c.fbx'' (Some ''shot_0010'') (Some 13), OpenEditor 100,
         ImportFbx 100 3 ''c.fbx'' True, SetTime 30 0 13, SetTime 30 1 16,
         SetTime 30 2 20, SetTime 32 0 13, SetTime 32 1 15, AddMasterTrack 100 50,
         AddMasterTrack 100 50, AddSection 50 60, SetCameraBindingId 60 3,
         SetRange 60 (Some 13) (Some 20), SetPlaybackStart 100 None]"
    by code_simp
  have "w_calls demo_world = []" by (simp add: demo_world_def)
  then have "evs = [AddCamera ''a.fbx'' (Some ''shot_0010'') None, OpenEditor 100,
         ImportFbx 100 3 ''a.fbx'' True, AddMasterTrack 100 50,
         AddMasterTrack 100 50, AddSection 50 60, SetCameraBindingId 60 3,
         SetRange 60 (Some 5) (Some 12),
         AddCamera ''c.fbx'' (Some ''shot_0010'') (Some 13), OpenEditor 100,
         ImportFbx 100 3 ''c.fbx'' True, SetTime 30 0 13, SetTime 30 1 16,
         SetTime 30 2 20, SetTime 32 0 13, SetTime 32 1 15, AddMasterTrack 100 50,
         AddMasterTrack 100 50, AddSection 50 60, SetCameraBindingId 60 3,
         SetRange 60 (Some 13) (Some 20), SetPlaybackStart 100 None]"
    using c tr by simp
  then have f: "filter (\<lambda>e. phase e = 2) evs = [ImportFbx 100 3 ''a.fbx'' True, ImportFbx 100 3 ''c.fbx'' True]"
    by simp
  show ?thesis using h demo_default_add_cameras c i r f len by blast
qed

text \<open>
  A list with one dict, which is empty: the call returns no camera and makes no host
  call.
\<close>

theorem add_cameras_empty_dict:
  "fst (add_cameras demo_api 100 [[]] (Some 1001) True one_by_one False demo_world) = Inr []
   \<and> w_calls (snd (add_cameras demo_api 100 [[]] (Some 1001) True one_by_one False demo_world)) = []"
  by (simp add: add_cameras_def demo_world_def)

end
